theory Spec2Isabelle
  imports Complex_Main "HOL-Library.Word" "HOL-Library.Log_Nat"
begin

section \<open>Data model\<close>

text \<open>
  The TypeScript sources (\<^verbatim>\<open>types/morse.ts\<close>, \<^verbatim>\<open>MorseConverterService.ts\<close>,
  \<^verbatim>\<open>AudioService.ts\<close>, \<^verbatim>\<open>FlashlightService.ts\<close>) are embedded as follows.
  \<^item> A JavaScript string is a \<^typ>\<open>string\<close>: one \<^typ>\<open>char\<close> per UTF-16 code unit, for
    the code units below 256 (ASCII and Latin-1). Every character the services compare
    against or look up is ASCII.
  \<^item> A JavaScript \<^verbatim>\<open>number\<close> holding a duration, a speed or a time is a \<^typ>\<open>rat\<close>, the
    value of a finite double. The sums, products and quotients of \<^verbatim>\<open>AudioService\<close> and
    \<^verbatim>\<open>FlashlightService\<close> round their exact result to the nearest double, ties to even,
    as IEEE 754 does (\<open>fadd\<close>, \<open>fmul\<close>, \<open>fdiv\<close> below). The exponent range is taken
    unbounded: there is no overflow to \<^verbatim>\<open>Infinity\<close>, no subnormal number and no \<^verbatim>\<open>NaN\<close>.
    \<^verbatim>\<open>morseToTiming\<close> multiplies the time unit by 3 and by 7; for the whole-millisecond
    units of the data model these products are exact, and they are written as exact
    products. Indices and sample counts are \<^typ>\<open>nat\<close> and \<^typ>\<open>int\<close>.
  \<^item> A thrown \<^verbatim>\<open>Error\<close> is a value of the datatype \<open>error\<close>, one constructor per message
    of the source; a function that can throw returns \<open>error + 'a\<close>.
\<close>

datatype MorseType = Dit | Dah | SymbolGap | LetterGap | WordGap

record MorseTiming =
  type :: MorseType
  duration :: rat

record TimingConfig =
  timeUnit :: rat
  ditDuration :: rat
  dahDuration :: rat
  symbolGap :: rat
  letterGap :: rat
  wordGap :: rat
  frequency :: rat

section \<open>MorseConverterService\<close>

subsection \<open>String primitives of the host language\<close>

text \<open>\<^verbatim>\<open>Array.prototype.join\<close>: the elements with the separator between neighbours.\<close>

fun join :: "'a list \<Rightarrow> 'a list list \<Rightarrow> 'a list" where
  "join sep [] = []"
| "join sep [x] = x"
| "join sep (x # y # xs) = x @ sep @ join sep (y # xs)"

text \<open>
  \<^verbatim>\<open>String.prototype.split\<close> with a one-character separator: every occurrence of the
  separator ends a piece, so \<^verbatim>\<open>"".split(' ')\<close> is \<^verbatim>\<open>[""]\<close> and \<^verbatim>\<open>" ".split(' ')\<close> is
  \<^verbatim>\<open>["", ""]\<close>.
\<close>

fun split :: "char \<Rightarrow> string \<Rightarrow> string list" where
  "split sep [] = [[]]"
| "split sep (c # cs) =
     (if c = sep then [] # split sep cs
      else (case split sep cs of
              [] \<Rightarrow> [[c]]
            | w # ws \<Rightarrow> (c # w) # ws))"

text \<open>
  The white space that \<^verbatim>\<open>String.prototype.trim\<close> strips, among the code units below
  256: TAB, LF, VT, FF, CR, SPACE and NO-BREAK SPACE.
\<close>

definition isWhiteSpace :: "char \<Rightarrow> bool" where
  "isWhiteSpace c \<longleftrightarrow>
     c \<in> set [CHR 0x09, CHR 0x0A, CHR 0x0B, CHR 0x0C, CHR 0x0D, CHR '' '', CHR 0xA0]"

definition trim :: "string \<Rightarrow> string" where
  "trim s = rev (dropWhile isWhiteSpace (rev (dropWhile isWhiteSpace s)))"

text \<open>
  \<^verbatim>\<open>String.prototype.toUpperCase\<close> on the code units below 256: the ASCII letters are
  folded, LATIN SMALL LETTER SHARP S (0xDF) becomes \<^verbatim>\<open>"SS"\<close>. The other Latin-1 letters
  are left as they are: neither they nor their upper-case forms are keys of the Morse
  table or the space, so the fold of such a letter changes no result below.
\<close>

definition toUpperCaseChar :: "char \<Rightarrow> string" where
  "toUpperCaseChar c =
     (case map_of (zip ''abcdefghijklmnopqrstuvwxyz'' ''ABCDEFGHIJKLMNOPQRSTUVWXYZ'') c of
        Some u \<Rightarrow> [u]
      | None \<Rightarrow> if c = CHR 0xDF then ''SS'' else [c])"

definition toUpperCase :: "string \<Rightarrow> string" where
  "toUpperCase s = concat (map toUpperCaseChar s)"

subsection \<open>The lookup table\<close>

definition MORSE_CODE_MAP :: "(char \<times> string) list" where
  "MORSE_CODE_MAP =
    [(CHR ''A'', ''.-''), (CHR ''B'', ''-...''), (CHR ''C'', ''-.-.''), (CHR ''D'', ''-..''),
     (CHR ''E'', ''.''), (CHR ''F'', ''..-.''), (CHR ''G'', ''--.''), (CHR ''H'', ''....''),
     (CHR ''I'', ''..''), (CHR ''J'', ''.---''), (CHR ''K'', ''-.-''), (CHR ''L'', ''.-..''),
     (CHR ''M'', ''--''), (CHR ''N'', ''-.''), (CHR ''O'', ''---''), (CHR ''P'', ''.--.''),
     (CHR ''Q'', ''--.-''), (CHR ''R'', ''.-.''), (CHR ''S'', ''...''), (CHR ''T'', ''-''),
     (CHR ''U'', ''..-''), (CHR ''V'', ''...-''), (CHR ''W'', ''.--''), (CHR ''X'', ''-..-''),
     (CHR ''Y'', ''-.--''), (CHR ''Z'', ''--..''),
     (CHR ''0'', ''-----''), (CHR ''1'', ''.----''), (CHR ''2'', ''..---''),
     (CHR ''3'', ''...--''), (CHR ''4'', ''....-''), (CHR ''5'', ''.....''),
     (CHR ''6'', ''-....''), (CHR ''7'', ''--...''), (CHR ''8'', ''---..''),
     (CHR ''9'', ''----.''),
     (CHR ''.'', ''.-.-.-''), (CHR '','', ''--..--''), (CHR ''?'', ''..--..''),
     (CHR 0x27, ''.----.''), (CHR ''!'', ''-.-.--''), (CHR ''/'', ''-..-.''),
     (CHR ''('', ''-.--.''), (CHR '')'', ''-.--.-''), (CHR ''&'', ''.-...''),
     (CHR '':'', ''---...''), (CHR '';'', ''-.-.-.''), (CHR ''='', ''-...-''),
     (CHR ''+'', ''.-.-.''), (CHR ''-'', ''-....-''), (CHR ''_'', ''..--.-''),
     (CHR 0x22, ''.-..-.''), (CHR ''$'', ''...-..-''), (CHR ''@'', ''.--.-.''),
     (CHR '' '', ''/'')]"

text \<open>\<^verbatim>\<open>MORSE_CODE_MAP[char] || ''\<close>: the code of a key, the empty string otherwise.\<close>

definition lookupMorse :: "char \<Rightarrow> string" where
  "lookupMorse char = (case map_of MORSE_CODE_MAP char of None \<Rightarrow> [] | Some morse \<Rightarrow> morse)"

subsection \<open>textToMorse\<close>

definition morseWord :: "string \<Rightarrow> string" where
  "morseWord word =
     (let letters = word;
          morseLetters = filter (\<lambda>morse. length morse > 0) (map lookupMorse letters)
      in join '' '' morseLetters)"

definition textToMorse :: "string \<Rightarrow> string" where
  "textToMorse text =
     (if text = [] \<or> length (trim text) = 0 then []
      else
        let upperText = toUpperCase text;
            words = split (CHR '' '') upperText;
            morseWords = filter (\<lambda>word. length word > 0) (map morseWord words)
        in join '' / '' morseWords)"

subsection \<open>morseToTiming\<close>

definition defaultTimingConfig :: TimingConfig where
  "defaultTimingConfig =
     \<lparr>timeUnit = 120, ditDuration = 120, dahDuration = 360, symbolGap = 120,
      letterGap = 360, wordGap = 840, frequency = 600\<rparr>"

definition timingConfig :: "rat \<Rightarrow> TimingConfig" where
  "timingConfig u =
     defaultTimingConfig
       \<lparr>timeUnit := u, ditDuration := u, dahDuration := u * 3, symbolGap := u,
        letterGap := u * 3, wordGap := u * 7\<rparr>"

text \<open>
  The body of the \<^verbatim>\<open>while\<close> loop of \<^verbatim>\<open>morseToTiming\<close>: the events that the iteration
  at index \<open>i\<close> pushes, in order. Every read of \<open>morse\<close> is guarded as in the source
  (\<open>i + 1 < morse.length\<close> before \<open>morse[i + 1]\<close>, \<open>i > 0\<close> before \<open>morse[i - 1]\<close>).
\<close>

definition pushed :: "string \<Rightarrow> TimingConfig \<Rightarrow> nat \<Rightarrow> MorseTiming list" where
  "pushed morse config i =
     (let char = morse ! i in
      if char = CHR ''.'' then
        \<lparr>type = Dit, duration = ditDuration config\<rparr> #
        (if i + 1 < length morse \<and> morse ! (i + 1) \<noteq> CHR '' '' \<and> morse ! (i + 1) \<noteq> CHR ''/''
         then [\<lparr>type = SymbolGap, duration = symbolGap config\<rparr>] else [])
      else if char = CHR ''-'' then
        \<lparr>type = Dah, duration = dahDuration config\<rparr> #
        (if i + 1 < length morse \<and> morse ! (i + 1) \<noteq> CHR '' '' \<and> morse ! (i + 1) \<noteq> CHR ''/''
         then [\<lparr>type = SymbolGap, duration = symbolGap config\<rparr>] else [])
      else if char = CHR '' '' then
        (if i + 1 < length morse \<and> morse ! (i + 1) = CHR ''/'' then []
         else if i > 0 \<and> morse ! (i - 1) = CHR ''/'' then []
         else [\<lparr>type = LetterGap, duration = letterGap config\<rparr>])
      else if char = CHR ''/'' then
        [\<lparr>type = WordGap, duration = wordGap config\<rparr>]
      else [])"

text \<open>The loop \<^verbatim>\<open>while (i < morse.length) { ...; i++ }\<close> over the array \<open>timings\<close>.\<close>

function scanFrom :: "string \<Rightarrow> TimingConfig \<Rightarrow> nat \<Rightarrow> MorseTiming list \<Rightarrow> MorseTiming list" where
  "scanFrom morse config i timings =
     (if i < length morse then scanFrom morse config (i + 1) (timings @ pushed morse config i)
      else timings)"
  by pat_completeness auto
termination
  by (relation "measure (\<lambda>(morse, config, i, timings). length morse - i)") auto

declare scanFrom.simps [simp del]

definition morseToTiming :: "string \<Rightarrow> rat \<Rightarrow> MorseTiming list" where
  "morseToTiming morse u =
     (if morse = [] \<or> length (trim morse) = 0 then []
      else scanFrom morse (timingConfig u) 0 [])"

subsection \<open>getSupportedCharacters\<close>

definition getSupportedCharacters :: "char list" where
  "getSupportedCharacters = filter (\<lambda>char. char \<noteq> CHR '' '') (map fst MORSE_CODE_MAP)"

section \<open>Notions used to state and prove the properties of the converter\<close>

text \<open>
  A signal-on event is a dit or a dah (the test \<^verbatim>\<open>timing.type === 'dit' || timing.type === 'dah'\<close>
  of \<^verbatim>\<open>AudioService.playSequence\<close> and of \<^verbatim>\<open>FlashlightService.executeTimingSequence\<close>);
  every other event is a gap.
\<close>

definition isSignal :: "MorseTiming \<Rightarrow> bool" where
  "isSignal timing \<longleftrightarrow> type timing = Dit \<or> type timing = Dah"

text \<open>
  The same scan by recursion on the string, for the proofs: \<open>emit\<close> is \<open>pushed\<close> with the
  previous, current and next character passed in, and \<open>go\<close> walks the rest of the string.
  Lemma \<open>scanFrom_go\<close> below shows that the loop computes \<open>go\<close>.
\<close>

definition emit :: "TimingConfig \<Rightarrow> char option \<Rightarrow> char \<Rightarrow> char option \<Rightarrow> MorseTiming list" where
  "emit config prev char nxt =
     (if char = CHR ''.'' then
        \<lparr>type = Dit, duration = ditDuration config\<rparr> #
        (if nxt \<noteq> None \<and> nxt \<noteq> Some (CHR '' '') \<and> nxt \<noteq> Some (CHR ''/'')
         then [\<lparr>type = SymbolGap, duration = symbolGap config\<rparr>] else [])
      else if char = CHR ''-'' then
        \<lparr>type = Dah, duration = dahDuration config\<rparr> #
        (if nxt \<noteq> None \<and> nxt \<noteq> Some (CHR '' '') \<and> nxt \<noteq> Some (CHR ''/'')
         then [\<lparr>type = SymbolGap, duration = symbolGap config\<rparr>] else [])
      else if char = CHR '' '' then
        (if nxt = Some (CHR ''/'') then []
         else if prev = Some (CHR ''/'') then []
         else [\<lparr>type = LetterGap, duration = letterGap config\<rparr>])
      else if char = CHR ''/'' then
        [\<lparr>type = WordGap, duration = wordGap config\<rparr>]
      else [])"

fun go :: "TimingConfig \<Rightarrow> char option \<Rightarrow> string \<Rightarrow> MorseTiming list" where
  "go config prev [] = []"
| "go config prev (c # cs) =
     emit config prev c (case cs of [] \<Rightarrow> None | d # _ \<Rightarrow> Some d) @ go config (Some c) cs"

text \<open>
  The output format of the Symbol Mapper: a letter is a non-empty run of \<open>.\<close> and \<open>-\<close>, a
  word is a non-empty list of letters, and \<open>render\<close> joins the letters of a word with one
  space and the words with \<^verbatim>\<open>" / "\<close>.
\<close>

definition isSymbol :: "char \<Rightarrow> bool" where
  "isSymbol c \<longleftrightarrow> c = CHR ''.'' \<or> c = CHR ''-''"

definition isLetterCode :: "string \<Rightarrow> bool" where
  "isLetterCode l \<longleftrightarrow> l \<noteq> [] \<and> list_all isSymbol l"

definition isWordCode :: "string list \<Rightarrow> bool" where
  "isWordCode w \<longleftrightarrow> w \<noteq> [] \<and> list_all isLetterCode w"

definition mapperFormat :: "string list list \<Rightarrow> bool" where
  "mapperFormat ws \<longleftrightarrow> list_all isWordCode ws"

definition render :: "string list list \<Rightarrow> string" where
  "render ws = join '' / '' (map (join '' '') ws)"

text \<open>The events expected for a string in that format, built word by word.\<close>

definition symbolEvent :: "TimingConfig \<Rightarrow> char \<Rightarrow> MorseTiming list" where
  "symbolEvent config c =
     (if c = CHR ''.'' then [\<lparr>type = Dit, duration = ditDuration config\<rparr>]
      else [\<lparr>type = Dah, duration = dahDuration config\<rparr>])"

definition letterEvents :: "TimingConfig \<Rightarrow> string \<Rightarrow> MorseTiming list" where
  "letterEvents config l =
     join [\<lparr>type = SymbolGap, duration = symbolGap config\<rparr>] (map (symbolEvent config) l)"

definition wordEvents :: "TimingConfig \<Rightarrow> string list \<Rightarrow> MorseTiming list" where
  "wordEvents config w =
     join [\<lparr>type = LetterGap, duration = letterGap config\<rparr>] (map (letterEvents config) w)"

definition textEvents :: "TimingConfig \<Rightarrow> string list list \<Rightarrow> MorseTiming list" where
  "textEvents config ws =
     join [\<lparr>type = WordGap, duration = wordGap config\<rparr>] (map (wordEvents config) ws)"

text \<open>
  \<open>alternates\<close>: of two neighbouring events exactly one is a signal. \<open>signalRun\<close>: such a
  sequence that also starts and ends with a signal.
\<close>

fun alternates :: "MorseTiming list \<Rightarrow> bool" where
  "alternates [] = True"
| "alternates [x] = True"
| "alternates (x # y # xs) = (isSignal x \<noteq> isSignal y \<and> alternates (y # xs))"

definition signalRun :: "MorseTiming list \<Rightarrow> bool" where
  "signalRun xs \<longleftrightarrow> xs \<noteq> [] \<and> isSignal (hd xs) \<and> isSignal (last xs) \<and> alternates xs"

text \<open>The three gap kinds, and the number of time units each kind of event lasts.\<close>

definition isGap :: "MorseTiming \<Rightarrow> bool" where
  "isGap timing \<longleftrightarrow> type timing = SymbolGap \<or> type timing = LetterGap \<or> type timing = WordGap"

fun units :: "MorseType \<Rightarrow> rat" where
  "units Dit = 1"
| "units Dah = 3"
| "units SymbolGap = 1"
| "units LetterGap = 3"
| "units WordGap = 7"

text \<open>The four characters that \<open>morseToTiming\<close> has a branch for.\<close>

definition inAlphabet :: "char \<Rightarrow> bool" where
  "inAlphabet c \<longleftrightarrow> c = CHR ''.'' \<or> c = CHR ''-'' \<or> c = CHR '' '' \<or> c = CHR ''/''"

text \<open>
  \<open>textToMorse\<close> as the specification words it: the text is upper-cased and split at
  single spaces; in each word the unsupported characters are dropped and each remaining
  character is replaced by its code, the codes of a word joined by one space; the words
  that keep at least one character are joined by \<^verbatim>\<open>" / "\<close>. There is no separate case for
  empty or white-space-only input.
\<close>

definition textToMorseSpec :: "string \<Rightarrow> string" where
  "textToMorseSpec text =
     join '' / ''
       (filter (\<lambda>w. w \<noteq> [])
          (map (\<lambda>word. join '' '' (map lookupMorse
                  (filter (\<lambda>c. c \<in> set getSupportedCharacters) word)))
             (split (CHR '' '') (toUpperCase text))))"

section \<open>Double-precision arithmetic\<close>

text \<open>
  \<open>roundDouble x\<close> is the double nearest to the rational \<open>x\<close>: with \<open>E = exponentOf x\<close> the
  exponent of \<open>x\<close> (\<open>2 ^ E \<le> |x| < 2 ^ (E + 1)\<close>, found from the bit lengths of numerator
  and denominator), \<open>|x|\<close> is scaled to a significand in \<open>[2 ^ 52, 2 ^ 53)\<close>, the significand is
  rounded to the nearest integer, a tie to the even one, and the result is scaled back.
  \<open>fadd\<close>, \<open>fmul\<close> and \<open>fdiv\<close> are the operators \<^verbatim>\<open>+\<close>, \<^verbatim>\<open>*\<close> and \<^verbatim>\<open>/\<close> of the host on
  numbers: the exact result, rounded once. A number written in the source or passed by a
  caller, such as \<^verbatim>\<open>0.6\<close>, is the double \<open>roundDouble (3 / 5)\<close>. No division of the services
  has a zero divisor: the divisors are a speed that passed validation (at least 0.5), the
  initial speed 1, and the constant 1000.
\<close>

definition roundHalfEven :: "rat \<Rightarrow> int" where
  "roundHalfEven m =
     (let f = \<lfloor>m\<rfloor>; d = m - of_int f in
      if d < 1 / 2 then f
      else if 1 / 2 < d then f + 1
      else if even f then f else f + 1)"

definition exponentOf :: "rat \<Rightarrow> int" where
  "exponentOf x =
     (let (p, q) = quotient_of \<bar>x\<bar>; k = bitlen p - bitlen q
      in if 2 powi k \<le> \<bar>x\<bar> then k else k - 1)"

definition roundDouble :: "rat \<Rightarrow> rat" where
  "roundDouble x =
     (if x = 0 then 0
      else
        let e = exponentOf x - 52
        in sgn x * of_int (roundHalfEven (\<bar>x\<bar> / 2 powi e)) * 2 powi e)"

definition fadd :: "rat \<Rightarrow> rat \<Rightarrow> rat" where
  "fadd x y = roundDouble (x + y)"

definition fmul :: "rat \<Rightarrow> rat \<Rightarrow> rat" where
  "fmul x y = roundDouble (x * y)"

definition fdiv :: "rat \<Rightarrow> rat \<Rightarrow> rat" where
  "fdiv x y = roundDouble (x / y)"

section \<open>Errors\<close>

text \<open>
  The services throw \<^verbatim>\<open>new Error(message)\<close>; \<open>error\<close> has one constructor per message:
  \<^item> \<open>ErrNoTimings\<close>: \<^verbatim>\<open>'No timings provided'\<close>
  \<^item> \<open>ErrSpeedRange\<close>: \<^verbatim>\<open>'Speed must be between 0.5 and 2.0'\<close>
  \<^item> \<open>ErrPositionRange\<close>: \<^verbatim>\<open>'Position must be between 0 and 1'\<close>
  \<^item> \<open>ErrAudioPlayback\<close>: \<^verbatim>\<open>'Audio playback failed'\<close>
  \<^item> \<open>ErrStorage\<close>: \<^verbatim>\<open>'Insufficient storage space available'\<close>
  \<^item> \<open>ErrGeneration\<close>: \<^verbatim>\<open>'Audio file generation failed'\<close>
  \<^item> \<open>ErrTransmissionInProgress\<close>: \<^verbatim>\<open>'Transmission already in progress'\<close>
  \<^item> \<open>ErrPermission\<close>: \<^verbatim>\<open>'Camera permission not granted'\<close>

  \<open>kind\<close> gives the error kind under which the specification files each of them.
\<close>

datatype error =
    ErrNoTimings
  | ErrSpeedRange
  | ErrPositionRange
  | ErrAudioPlayback
  | ErrStorage
  | ErrGeneration
  | ErrTransmissionInProgress
  | ErrPermission

datatype errorKind =
    InvalidInput | AlreadyTransmitting | PermissionDenied | AudioPlaybackFailed
  | StorageFull | GenerationFailed

fun kind :: "error \<Rightarrow> errorKind" where
  "kind ErrNoTimings = InvalidInput"
| "kind ErrSpeedRange = InvalidInput"
| "kind ErrPositionRange = InvalidInput"
| "kind ErrAudioPlayback = AudioPlaybackFailed"
| "kind ErrStorage = StorageFull"
| "kind ErrGeneration = GenerationFailed"
| "kind ErrTransmissionInProgress = AlreadyTransmitting"
| "kind ErrPermission = PermissionDenied"

section \<open>AudioService: live playback\<close>

text \<open>
  The fields of the class that the transport reads and writes. The sound handle and the
  two callback fields hold no timer and are left out; calls of the callbacks change no
  field. \<open>Date.now()\<close> is the argument \<open>now\<close> of the operations that read the clock.

  The timers of the host are part of the state: \<open>intervals\<close> holds the ids of the live
  \<^verbatim>\<open>setInterval\<close> timers, \<open>timeouts\<close> the live \<^verbatim>\<open>setTimeout\<close> timers with what each runs
  when it fires, \<open>nextTimerId\<close> the next fresh id (ids start at 1, so that a stored id is
  truthy in the tests \<^verbatim>\<open>if (this.progressInterval)\<close>). A pending timeout is either
  \<^item> \<open>EventWait timings speed index adjustedDuration\<close>: \<^verbatim>\<open>playSequence(timings, speed, index)\<close>
    suspended in \<^verbatim>\<open>await this.playBeep(adjustedDuration)\<close> or
    \<^verbatim>\<open>await this.wait(adjustedDuration)\<close> (both end in one \<^verbatim>\<open>setTimeout(resolve, duration)\<close>,
    whose id is stored nowhere; the sound of a beep is taken to load), or
  \<^item> \<open>NextStep timings speed index\<close>: the
    \<^verbatim>\<open>setTimeout(() => this.playSequence(timings, speed, index + 1), 0)\<close> whose id is stored
    in \<open>playbackTimeout\<close>.
  Each operation below is one synchronous stretch of the source, up to its first
  suspension; \<open>fire\<close> is the host running a pending timeout. A tick of a progress
  sampler only calls the progress callback and changes no field.
\<close>

record PlaybackState =
  isPlaying :: bool
  isPaused :: bool
  currentIndex :: nat
  startTime :: rat
  pausedTime :: rat
  totalDuration :: rat

datatype pending =
    EventWait "MorseTiming list" rat nat rat
  | NextStep "MorseTiming list" rat nat

record AudioService =
  playbackState :: PlaybackState
  accumulatedDuration :: rat
  currentItemStartTime :: rat
  progressInterval :: "nat option"
  playbackTimeout :: "nat option"
  currentTimings :: "MorseTiming list"
  currentSpeed :: rat
  intervals :: "nat list"
  timeouts :: "(nat \<times> pending) list"
  nextTimerId :: nat

definition stoppedState :: PlaybackState where
  "stoppedState =
     \<lparr>isPlaying = False, isPaused = False, currentIndex = 0, startTime = 0,
      pausedTime = 0, totalDuration = 0\<rparr>"

definition initialAudioService :: AudioService where
  "initialAudioService =
     \<lparr>playbackState = stoppedState, accumulatedDuration = 0, currentItemStartTime = 0,
      progressInterval = None, playbackTimeout = None, currentTimings = [],
      currentSpeed = 1, intervals = [], timeouts = [], nextTimerId = 1\<rparr>"

definition setTimeout :: "pending \<Rightarrow> AudioService \<Rightarrow> nat \<times> AudioService" where
  "setTimeout p s =
     (nextTimerId s,
      s\<lparr>timeouts := timeouts s @ [(nextTimerId s, p)], nextTimerId := nextTimerId s + 1\<rparr>)"

definition setInterval :: "AudioService \<Rightarrow> nat \<times> AudioService" where
  "setInterval s =
     (nextTimerId s,
      s\<lparr>intervals := intervals s @ [nextTimerId s], nextTimerId := nextTimerId s + 1\<rparr>)"

definition clearTimeout :: "nat \<Rightarrow> AudioService \<Rightarrow> AudioService" where
  "clearTimeout t s = s\<lparr>timeouts := filter (\<lambda>(i, p). i \<noteq> t) (timeouts s)\<rparr>"

definition clearInterval :: "nat \<Rightarrow> AudioService \<Rightarrow> AudioService" where
  "clearInterval t s = s\<lparr>intervals := filter (\<lambda>i. i \<noteq> t) (intervals s)\<rparr>"

text \<open>
  \<^verbatim>\<open>timings.reduce((total, timing) => total + timing.duration / speed, 0)\<close>: each quotient
  and each sum is rounded.
\<close>

definition calculateTotalDuration :: "MorseTiming list \<Rightarrow> rat \<Rightarrow> rat" where
  "calculateTotalDuration timings speed =
     foldl (\<lambda>total timing. fadd total (fdiv (duration timing) speed)) 0 timings"

text \<open>\<^verbatim>\<open>cleanup\<close>, also \<^verbatim>\<open>stopPlayback\<close> and \<^verbatim>\<open>releaseResources\<close>.\<close>

definition cleanup :: "AudioService \<Rightarrow> AudioService" where
  "cleanup s =
     (let s1 = (case progressInterval s of
                  Some t \<Rightarrow> (clearInterval t s)\<lparr>progressInterval := None\<rparr>
                | None \<Rightarrow> s);
          s2 = (case playbackTimeout s1 of
                  Some t \<Rightarrow> (clearTimeout t s1)\<lparr>playbackTimeout := None\<rparr>
                | None \<Rightarrow> s1)
      in s2\<lparr>playbackState := stoppedState, accumulatedDuration := 0,
            currentItemStartTime := 0\<rparr>)"

definition playSequence :: "rat \<Rightarrow> MorseTiming list \<Rightarrow> rat \<Rightarrow> nat \<Rightarrow> AudioService \<Rightarrow> AudioService" where
  "playSequence now timings speed index s =
     (if \<not> isPlaying (playbackState s) \<or> isPaused (playbackState s) then s
      else if index \<ge> length timings then cleanup s
      else
        let timing = timings ! index;
            adjustedDuration = fdiv (duration timing) speed;
            s1 = s\<lparr>playbackState := (playbackState s)\<lparr>currentIndex := index\<rparr>,
                   currentItemStartTime := now\<rparr>
        in snd (setTimeout (EventWait timings speed index adjustedDuration) s1))"

text \<open>
  The host fires the timeout \<open>t\<close>. An \<open>EventWait\<close> resumes \<^verbatim>\<open>playSequence\<close> after its
  \<^verbatim>\<open>await\<close>: the accumulated duration grows and the next step is scheduled. A \<open>NextStep\<close>
  calls \<^verbatim>\<open>playSequence\<close> at the next index.
\<close>

definition fire :: "rat \<Rightarrow> nat \<Rightarrow> AudioService \<Rightarrow> AudioService" where
  "fire now t s =
     (case map_of (timeouts s) t of
        None \<Rightarrow> s
      | Some (EventWait timings speed index adjustedDuration) \<Rightarrow>
          let s1 = clearTimeout t s;
              s2 = s1\<lparr>accumulatedDuration := fadd (accumulatedDuration s1) adjustedDuration\<rparr>;
              (t', s3) = setTimeout (NextStep timings speed index) s2
          in s3\<lparr>playbackTimeout := Some t'\<rparr>
      | Some (NextStep timings speed index) \<Rightarrow>
          playSequence now timings speed (index + 1) (clearTimeout t s))"

definition startProgressTracking :: "AudioService \<Rightarrow> AudioService" where
  "startProgressTracking s = (let (t, s1) = setInterval s in s1\<lparr>progressInterval := Some t\<rparr>)"

text \<open>
  \<^verbatim>\<open>playMorse\<close>; \<open>audioOk\<close> says whether \<^verbatim>\<open>initializeAudio\<close> succeeds. The two validations
  throw before the \<^verbatim>\<open>try\<close>, a failure inside it runs \<^verbatim>\<open>cleanup\<close> and throws
  \<^verbatim>\<open>'Audio playback failed'\<close>.
\<close>

definition playMorse ::
    "rat \<Rightarrow> bool \<Rightarrow> MorseTiming list \<Rightarrow> rat \<Rightarrow> AudioService \<Rightarrow> (error + unit) \<times> AudioService" where
  "playMorse now audioOk timings speed s =
     (if length timings = 0 then (Inl ErrNoTimings, s)
      else if speed < 1 / 2 \<or> speed > 2 then (Inl ErrSpeedRange, s)
      else if \<not> audioOk then (Inl ErrAudioPlayback, cleanup s)
      else
        let s1 = s\<lparr>currentTimings := timings, currentSpeed := speed\<rparr>;
            total = calculateTotalDuration timings speed;
            s2 = s1\<lparr>playbackState :=
                      \<lparr>isPlaying = True, isPaused = False, currentIndex = 0,
                       startTime = now, pausedTime = 0, totalDuration = total\<rparr>,
                    accumulatedDuration := 0, currentItemStartTime := 0\<rparr>;
            s3 = startProgressTracking s2
        in (Inr (), playSequence now timings speed 0 s3))"

definition pausePlayback :: "rat \<Rightarrow> AudioService \<Rightarrow> AudioService" where
  "pausePlayback now s =
     (if isPlaying (playbackState s) \<and> \<not> isPaused (playbackState s) then
        let s1 = s\<lparr>playbackState := (playbackState s)\<lparr>isPaused := True, pausedTime := now\<rparr>\<rparr>
        in (case playbackTimeout s1 of
              Some t \<Rightarrow> (clearTimeout t s1)\<lparr>playbackTimeout := None\<rparr>
            | None \<Rightarrow> s1)
      else s)"

definition resumePlayback :: "rat \<Rightarrow> AudioService \<Rightarrow> AudioService" where
  "resumePlayback now s =
     (if isPlaying (playbackState s) \<and> isPaused (playbackState s) then
        let s1 = s\<lparr>playbackState := (playbackState s)\<lparr>isPaused := False\<rparr>,
                   currentItemStartTime := now\<rparr>
        in playSequence now (currentTimings s1) (currentSpeed s1)
             (currentIndex (playbackState s1)) s1
      else s)"

text \<open>
  The \<^verbatim>\<open>for\<close> loop of \<^verbatim>\<open>seekTo\<close>, returning \<open>(targetIndex, accumulatedTime)\<close>:
  \<open>targetIndex\<close> is assigned only before the \<^verbatim>\<open>break\<close>, so it is still 0 when the loop
  runs to the end.
\<close>

function seekLoop :: "MorseTiming list \<Rightarrow> rat \<Rightarrow> rat \<Rightarrow> nat \<Rightarrow> rat \<Rightarrow> nat \<times> rat" where
  "seekLoop timings speed targetTime i accumulatedTime =
     (if i < length timings then
        let timingDuration = fdiv (duration (timings ! i)) speed in
        if fadd accumulatedTime timingDuration \<ge> targetTime then (i, accumulatedTime)
        else seekLoop timings speed targetTime (i + 1) (fadd accumulatedTime timingDuration)
      else (0, accumulatedTime))"
  by pat_completeness auto
termination
  by (relation "measure (\<lambda>(timings, speed, targetTime, i, accumulatedTime). length timings - i)")
    auto

declare seekLoop.simps [simp del]

definition seekTo :: "rat \<Rightarrow> rat \<Rightarrow> AudioService \<Rightarrow> (error + unit) \<times> AudioService" where
  "seekTo now position s =
     (if position < 0 \<or> position > 1 then (Inl ErrPositionRange, s)
      else
        let wasPlaying = isPlaying (playbackState s) \<and> \<not> isPaused (playbackState s);
            s1 = pausePlayback now s;
            targetTime = fmul position (totalDuration (playbackState s1));
            (targetIndex, accumulatedTime) =
               seekLoop (currentTimings s1) (currentSpeed s1) targetTime 0 0;
            s2 = s1\<lparr>playbackState := (playbackState s1)\<lparr>currentIndex := targetIndex\<rparr>,
                    accumulatedDuration := accumulatedTime,
                    currentItemStartTime := now\<rparr>
        in if wasPlaying then
             let s3 = s2\<lparr>playbackState := (playbackState s2)\<lparr>isPaused := False\<rparr>\<rparr>
             in (Inr (), playSequence now (currentTimings s3) (currentSpeed s3) targetIndex s3)
           else (Inr (), s2))"

definition stopPlayback :: "AudioService \<Rightarrow> AudioService" where
  "stopPlayback s = cleanup s"

subsection \<open>Notions used to state the properties of the transport\<close>

text \<open>
  The running sum of speed-adjusted durations over the first \<open>k\<close> events, accumulated as
  the code accumulates it (\<^verbatim>\<open>accumulatedTime += timing.duration / speed\<close>, from 0, in
  doubles): the total of the first \<open>k\<close> events.
\<close>

definition runningSum :: "MorseTiming list \<Rightarrow> rat \<Rightarrow> nat \<Rightarrow> rat" where
  "runningSum timings speed k = calculateTotalDuration (take k timings) speed"

text \<open>
  Example sessions: the engine right after \<^verbatim>\<open>playMorse(morseToTiming(morse, 100), speed, cb)\<close>
  on a fresh service, at time 0; \<open>sessionOf\<close> is the one at speed 1.
\<close>

definition sessionAtSpeed :: "string \<Rightarrow> rat \<Rightarrow> AudioService" where
  "sessionAtSpeed morse speed =
     snd (playMorse 0 True (morseToTiming morse 100) speed initialAudioService)"

definition sessionOf :: "string \<Rightarrow> AudioService" where
  "sessionOf morse = snd (playMorse 0 True (morseToTiming morse 100) 1 initialAudioService)"

text \<open>
  What \<open>playMorse\<close> establishes about the stored sequence when no duration is negative:
  the sequence is not empty, the speed is positive and the stored total is the total of
  the stored sequence.
\<close>

definition activeSession :: "AudioService \<Rightarrow> bool" where
  "activeSession s \<longleftrightarrow>
     currentTimings s \<noteq> [] \<and> list_all (\<lambda>t. 0 \<le> duration t) (currentTimings s) \<and>
     0 < currentSpeed s \<and>
     totalDuration (playbackState s) =
       calculateTotalDuration (currentTimings s) (currentSpeed s)"

text \<open>
  What happens to the engine between two calls of \<open>playMorse\<close>: the host runs a pending
  timeout, or the caller pauses or stops. (\<^verbatim>\<open>resumePlayback\<close> and \<^verbatim>\<open>seekTo\<close> are not among
  these steps.) \<open>runSteps\<close> applies a sequence of such steps in order.
\<close>

datatype transportStep = Fire rat nat | Pause rat | Stop

fun applyStep :: "transportStep \<Rightarrow> AudioService \<Rightarrow> AudioService" where
  "applyStep (Fire now t) s = fire now t s"
| "applyStep (Pause now) s = pausePlayback now s"
| "applyStep Stop s = stopPlayback s"

definition runSteps :: "transportStep list \<Rightarrow> AudioService \<Rightarrow> AudioService" where
  "runSteps steps s = foldl (\<lambda>s step. applyStep step s) s steps"


text \<open>
  An engine whose session ran to its end: the session of \<^verbatim>\<open>"."\<close> after the host ran the
  wait of its only event (timer 2) and the step scheduled after it (timer 3).
\<close>

definition completedSession :: AudioService where
  "completedSession = runSteps [Fire 100 2, Fire 100 3] (sessionOf ''.'')"
section \<open>AudioService: file synthesis\<close>

text \<open>
  A \<^verbatim>\<open>Uint8Array\<close> is a list of bytes, and a \<^verbatim>\<open>DataView\<close> over it the same list; the
  \<^verbatim>\<open>set...\<close> methods store little-endian (the source passes \<^verbatim>\<open>true\<close>), each byte the
  value modulo 256 (\<open>toUint8\<close>), so that \<^verbatim>\<open>setUint32\<close> stores its argument modulo
  \<open>2 ^ 32\<close>. Every offset the source writes lies inside the array, where the host
  would raise \<^verbatim>\<open>RangeError\<close> otherwise. \<open>getUint16\<close> and \<open>getUint32\<close> read a field back
  as a number, to state what the header holds.
\<close>

type_synonym byte = "8 word"

definition toUint8 :: "nat \<Rightarrow> byte" where
  "toUint8 v = of_nat v"

definition setUint8 :: "byte list \<Rightarrow> nat \<Rightarrow> nat \<Rightarrow> byte list" where
  "setUint8 view offset v = view[offset := toUint8 v]"

definition setUint16 :: "byte list \<Rightarrow> nat \<Rightarrow> nat \<Rightarrow> byte list" where
  "setUint16 view offset v = view[offset := toUint8 v, offset + 1 := toUint8 (v div 256)]"

definition setUint32 :: "byte list \<Rightarrow> nat \<Rightarrow> nat \<Rightarrow> byte list" where
  "setUint32 view offset v =
     view[offset := toUint8 v, offset + 1 := toUint8 (v div 256),
          offset + 2 := toUint8 (v div 65536), offset + 3 := toUint8 (v div 16777216)]"

definition setInt16 :: "byte list \<Rightarrow> nat \<Rightarrow> 16 word \<Rightarrow> byte list" where
  "setInt16 view offset v = view[offset := ucast v, offset + 1 := ucast (drop_bit 8 v)]"

definition getUint16 :: "byte list \<Rightarrow> nat \<Rightarrow> nat" where
  "getUint16 view offset = unat (view ! offset) + 256 * unat (view ! (offset + 1))"

definition getUint32 :: "byte list \<Rightarrow> nat \<Rightarrow> nat" where
  "getUint32 view offset =
     unat (view ! offset) + 256 * unat (view ! (offset + 1)) +
     65536 * unat (view ! (offset + 2)) + 16777216 * unat (view ! (offset + 3))"

fun writeString :: "byte list \<Rightarrow> nat \<Rightarrow> string \<Rightarrow> byte list" where
  "writeString view offset [] = view"
| "writeString view offset (c # cs) =
     writeString (setUint8 view offset (of_char c)) (offset + 1) cs"

definition createWavHeader :: "nat \<Rightarrow> nat \<Rightarrow> byte list" where
  "createWavHeader numSamples sampleRate =
     (let numChannels = 1;
          bitsPerSample = 16;
          byteRate = sampleRate * numChannels * (bitsPerSample div 8);
          blockAlign = numChannels * (bitsPerSample div 8);
          dataSize = numSamples * numChannels * (bitsPerSample div 8);
          header = replicate 44 0;
          view = writeString header 0 ''RIFF'';
          view = setUint32 view 4 (36 + dataSize);
          view = writeString view 8 ''WAVE'';
          view = writeString view 12 ''fmt '';
          view = setUint32 view 16 16;
          view = setUint16 view 20 1;
          view = setUint16 view 22 numChannels;
          view = setUint32 view 24 sampleRate;
          view = setUint32 view 28 byteRate;
          view = setUint16 view 32 blockAlign;
          view = setUint16 view 34 bitsPerSample;
          view = writeString view 36 ''data'';
          view = setUint32 view 40 dataSize
      in view)"

text \<open>\<^verbatim>\<open>target.set(source, offset)\<close> of a typed array, for a source that fits.\<close>

definition setBytes :: "byte list \<Rightarrow> byte list \<Rightarrow> nat \<Rightarrow> byte list" where
  "setBytes target source offset =
     take offset target @ source @ drop (offset + length source) target"

text \<open>
  The two inner loops of \<^verbatim>\<open>generateAudioFile\<close>,
  \<^verbatim>\<open>for (let i = 0; i < numSamples && currentSampleIndex < totalSamples; i++)\<close>
  \<^verbatim>\<open>samples[currentSampleIndex++] = ...\<close>, with the stored value as a function of \<open>i\<close>;
  \<open>totalSamples\<close> is the length of \<open>samples\<close>. \<open>fillSamples\<close> is the loop over the timings.
  The value of a tone sample, \<^verbatim>\<open>Math.floor(Math.sin(2 * Math.PI * 600 * (i / 44100)) * 0.3 * 32767)\<close>
  in the host's floating point, is the parameter \<open>tone\<close>; an \<^verbatim>\<open>Int16Array\<close> keeps it as a
  16-bit word.
\<close>

function writeSamples ::
    "(nat \<Rightarrow> 16 word) \<Rightarrow> int \<Rightarrow> nat \<Rightarrow> 16 word list \<Rightarrow> nat \<Rightarrow> 16 word list \<times> nat" where
  "writeSamples sample numSamples i samples currentSampleIndex =
     (if int i < numSamples \<and> currentSampleIndex < length samples then
        writeSamples sample numSamples (i + 1)
          (samples[currentSampleIndex := sample i]) (currentSampleIndex + 1)
      else (samples, currentSampleIndex))"
  by pat_completeness auto
termination
  by (relation "measure (\<lambda>(sample, numSamples, i, samples, currentSampleIndex).
        nat (numSamples - int i))") auto

declare writeSamples.simps [simp del]

fun fillSamples ::
    "(nat \<Rightarrow> int) \<Rightarrow> nat \<Rightarrow> rat \<Rightarrow> MorseTiming list \<Rightarrow> 16 word list \<times> nat \<Rightarrow> 16 word list \<times> nat" where
  "fillSamples tone sampleRate speed [] (samples, currentSampleIndex) =
     (samples, currentSampleIndex)"
| "fillSamples tone sampleRate speed (timing # rest) (samples, currentSampleIndex) =
     (let adjustedDuration = fdiv (duration timing) speed;
          numSamples = \<lfloor>fmul (fdiv adjustedDuration 1000) (of_nat sampleRate)\<rfloor>
      in fillSamples tone sampleRate speed rest
           (if type timing = Dit \<or> type timing = Dah then
              writeSamples (\<lambda>i. word_of_int (tone i)) numSamples 0 samples currentSampleIndex
            else
              writeSamples (\<lambda>i. 0) numSamples 0 samples currentSampleIndex))"

text \<open>
  The loop \<^verbatim>\<open>dataView.setInt16(wavHeader.length + i * 2, samples[i], true)\<close> over the
  samples.
\<close>

fun copySamples :: "byte list \<Rightarrow> nat \<Rightarrow> 16 word list \<Rightarrow> nat \<Rightarrow> byte list" where
  "copySamples view base [] i = view"
| "copySamples view base (x # xs) i =
     copySamples (setInt16 view (base + i * 2) x) base xs (i + 1)"

text \<open>
  \<^verbatim>\<open>String.prototype.includes\<close>, and \<^verbatim>\<open>toLowerCase\<close> on ASCII (a letter beyond ASCII never
  folds to a letter of the three words looked for).
\<close>

fun stringIncludes :: "string \<Rightarrow> string \<Rightarrow> bool" where
  "stringIncludes [] needle = (needle = [])"
| "stringIncludes (c # cs) needle = (take (length needle) (c # cs) = needle \<or> stringIncludes cs needle)"

definition toLowerCaseChar :: "char \<Rightarrow> char" where
  "toLowerCaseChar c =
     (case map_of (zip ''ABCDEFGHIJKLMNOPQRSTUVWXYZ'' ''abcdefghijklmnopqrstuvwxyz'') c of
        Some l \<Rightarrow> l
      | None \<Rightarrow> c)"

definition toLowerCase :: "string \<Rightarrow> string" where
  "toLowerCase s = map toLowerCaseChar s"

text \<open>
  \<^verbatim>\<open>generateAudioFile\<close>. The result is the byte content handed to the file system: the
  bytes that the base64 string encodes (the encoding itself and the file name, built
  from the clock, are left out). \<open>writeFailure\<close> is the message of the
  error that \<^verbatim>\<open>FileSystem.writeAsStringAsync\<close> raises, if it raises one. A negative
  \<open>totalSamples\<close> makes \<^verbatim>\<open>new Int16Array(totalSamples)\<close> raise \<^verbatim>\<open>RangeError\<close>, which the
  \<^verbatim>\<open>catch\<close> turns into \<^verbatim>\<open>'Audio file generation failed'\<close>.
\<close>

definition generateAudioFile ::
    "(nat \<Rightarrow> int) \<Rightarrow> string option \<Rightarrow> MorseTiming list \<Rightarrow> rat \<Rightarrow> error + byte list" where
  "generateAudioFile tone writeFailure timings speed =
     (if length timings = 0 then Inl ErrNoTimings
      else if speed < 1 / 2 \<or> speed > 2 then Inl ErrSpeedRange
      else
        let sampleRate = 44100;
            totalDuration = calculateTotalDuration timings speed;
            totalSamples = \<lfloor>fmul (fdiv totalDuration 1000) (of_nat sampleRate)\<rfloor>
        in if totalSamples < 0 then Inl ErrGeneration
           else
             let samples = fst (fillSamples tone sampleRate speed timings
                                  (replicate (nat totalSamples) 0, 0));
                 wavHeader = createWavHeader (nat totalSamples) sampleRate;
                 wavData = replicate (length wavHeader + length samples * 2) 0;
                 wavData = setBytes wavData wavHeader 0;
                 wavData = copySamples wavData (length wavHeader) samples 0
             in (case writeFailure of
                   None \<Rightarrow> Inr wavData
                 | Some message \<Rightarrow>
                     if stringIncludes (toLowerCase message) ''storage'' \<or>
                        stringIncludes (toLowerCase message) ''space'' \<or>
                        stringIncludes (toLowerCase message) ''disk full''
                     then Inl ErrStorage
                     else Inl ErrGeneration))"

text \<open>
  The sample count of a sequence: \<open>totalSamples\<close> as \<^verbatim>\<open>generateAudioFile\<close> computes it from
  the total speed-adjusted duration at 44.1 kHz,
  \<^verbatim>\<open>Math.floor((totalDuration / 1000) * sampleRate)\<close> in doubles.
\<close>

definition sampleCount :: "MorseTiming list \<Rightarrow> rat \<Rightarrow> int" where
  "sampleCount timings speed =
     \<lfloor>fmul (fdiv (calculateTotalDuration timings speed) 1000) 44100\<rfloor>"

text \<open>
  An example file: the generated file of \<^verbatim>\<open>"--- -.-"\<close> at the default unit of 120 ms and
  speed 1, with silence for the tone.
\<close>

definition exampleWav :: "byte list" where
  "exampleWav =
     (case generateAudioFile (\<lambda>i. 0) None (morseToTiming ''--- -.-'' 120) 1 of
        Inr wav \<Rightarrow> wav
      | Inl e \<Rightarrow> [])"
section \<open>FlashlightService\<close>

text \<open>
  The fields of the class, and the host's pending timeouts: \<open>pendingSteps\<close> holds, for
  each live \<^verbatim>\<open>setTimeout\<close> of \<^verbatim>\<open>scheduleNext\<close>, its id and \<open>FlashStep delay timings index\<close>,
  the delay \<^verbatim>\<open>timing.duration + 10\<close> and the sequence and index its closure holds.
  \<open>completeCalls\<close> counts the calls of an \<^verbatim>\<open>onComplete\<close> callback and \<open>errorCalls\<close> lists
  the errors handed to an \<^verbatim>\<open>onError\<close> callback. The torch callback is taken not to
  throw.
\<close>

datatype flashStep = FlashStep rat "MorseTiming list" nat

record FlashlightService =
  isTransmitting :: bool
  transmissionTimeouts :: "nat list"
  torchEnabled :: bool
  pendingSteps :: "(nat \<times> flashStep) list"
  nextStepId :: nat
  completeCalls :: nat
  errorCalls :: "error list"

definition initialFlashlightService :: FlashlightService where
  "initialFlashlightService =
     \<lparr>isTransmitting = False, transmissionTimeouts = [], torchEnabled = False,
      pendingSteps = [], nextStepId = 1, completeCalls = 0, errorCalls = []\<rparr>"

text \<open>\<^verbatim>\<open>hasPermission()\<close> is a placeholder in the source and resolves to \<^verbatim>\<open>true\<close>.\<close>

definition hasPermission :: bool where
  "hasPermission = True"

definition turnOnFlashlight :: "FlashlightService \<Rightarrow> FlashlightService" where
  "turnOnFlashlight s = s\<lparr>torchEnabled := True\<rparr>"

definition turnOffFlashlight :: "FlashlightService \<Rightarrow> FlashlightService" where
  "turnOffFlashlight s = s\<lparr>torchEnabled := False\<rparr>"

definition scheduleNext :: "MorseTiming list \<Rightarrow> nat \<Rightarrow> FlashlightService \<Rightarrow> FlashlightService" where
  "scheduleNext timings index s =
     (if \<not> isTransmitting s \<or> index \<ge> length timings then
        let s1 = turnOffFlashlight s;
            s2 = s1\<lparr>isTransmitting := False\<rparr>
        in s2\<lparr>completeCalls := completeCalls s2 + 1\<rparr>
      else
        let timing = timings ! index;
            shouldTurnOn = (type timing = Dit \<or> type timing = Dah);
            s1 = (if shouldTurnOn then turnOnFlashlight s else turnOffFlashlight s);
            timeoutId = nextStepId s1;
            s2 = s1\<lparr>pendingSteps := pendingSteps s1 @
                      [(timeoutId, FlashStep (fadd (duration timing) 10) timings index)],
                    nextStepId := nextStepId s1 + 1\<rparr>
        in s2\<lparr>transmissionTimeouts := transmissionTimeouts s2 @ [timeoutId]\<rparr>)"

text \<open>The host fires the timeout \<open>t\<close>: \<^verbatim>\<open>currentIndex++; scheduleNext()\<close>.\<close>

definition fireStep :: "nat \<Rightarrow> FlashlightService \<Rightarrow> FlashlightService" where
  "fireStep t s =
     (case map_of (pendingSteps s) t of
        None \<Rightarrow> s
      | Some (FlashStep delay timings index) \<Rightarrow>
          scheduleNext timings (index + 1)
            (s\<lparr>pendingSteps := filter (\<lambda>(i, p). i \<noteq> t) (pendingSteps s)\<rparr>))"

definition executeTimingSequence :: "MorseTiming list \<Rightarrow> FlashlightService \<Rightarrow> FlashlightService" where
  "executeTimingSequence timings s = scheduleNext timings 0 s"

text \<open>
  \<^verbatim>\<open>transmitMorse\<close>. The whole body is inside \<^verbatim>\<open>try\<close>, and the \<^verbatim>\<open>catch\<close> block sets
  \<^verbatim>\<open>this.isTransmitting = false\<close>, calls \<^verbatim>\<open>onError\<close> and throws the error again: the
  state returned with an error is the state after the \<^verbatim>\<open>catch\<close> block.
\<close>

definition transmitMorse ::
    "MorseTiming list \<Rightarrow> FlashlightService \<Rightarrow> (error + unit) \<times> FlashlightService" where
  "transmitMorse timings s =
     (if isTransmitting s then
        (Inl ErrTransmissionInProgress,
         s\<lparr>isTransmitting := False, errorCalls := errorCalls s @ [ErrTransmissionInProgress]\<rparr>)
      else if \<not> hasPermission then
        (Inl ErrPermission,
         s\<lparr>isTransmitting := False, errorCalls := errorCalls s @ [ErrPermission]\<rparr>)
      else if length timings = 0 then
        (Inr (), s\<lparr>completeCalls := completeCalls s + 1\<rparr>)
      else
        (Inr (), executeTimingSequence timings (s\<lparr>isTransmitting := True\<rparr>)))"

definition stopTransmission :: "FlashlightService \<Rightarrow> FlashlightService" where
  "stopTransmission s =
     (if \<not> isTransmitting s then s
      else
        let s1 = s\<lparr>isTransmitting := False\<rparr>;
            s2 = s1\<lparr>pendingSteps :=
                      filter (\<lambda>(i, p). i \<notin> set (transmissionTimeouts s1)) (pendingSteps s1)\<rparr>;
            s3 = s2\<lparr>transmissionTimeouts := []\<rparr>
        in turnOffFlashlight s3)"

definition isTransmittingNow :: "FlashlightService \<Rightarrow> bool" where
  "isTransmittingNow s = isTransmitting s"

text \<open>
  An example: \<open>transmitting\<close> is the service right after \<^verbatim>\<open>transmitMorse\<close> of \<^verbatim>\<open>".-"\<close> on an
  idle service, \<open>rejected\<close> the service after a second \<^verbatim>\<open>transmitMorse\<close> made while the
  first transmission waits for its first step.
\<close>

definition transmitting :: FlashlightService where
  "transmitting = snd (transmitMorse (morseToTiming ''.-'' 100) initialFlashlightService)"

definition rejected :: FlashlightService where
  "rejected = snd (transmitMorse (morseToTiming ''-'' 100) transmitting)"

section \<open>Properties of MorseConverterService\<close>

lemma pushed_emit:
  assumes "i < length morse"
  shows "pushed morse config i =
         emit config (if i = 0 then None else Some (morse ! (i - 1))) (morse ! i)
           (case drop (Suc i) morse of [] \<Rightarrow> None | d # _ \<Rightarrow> Some d)"
proof (cases "Suc i < length morse")
  case True
  then have "drop (Suc i) morse = morse ! Suc i # drop (Suc (Suc i)) morse"
    by (simp add: Cons_nth_drop_Suc)
  then show ?thesis using True
    by (simp add: pushed_def emit_def Let_def)
next
  case False
  then have "drop (Suc i) morse = []" by simp
  then show ?thesis using False
    by (simp add: pushed_def emit_def Let_def)
qed

lemma scanFrom_go:
  "i \<le> length morse \<Longrightarrow>
   scanFrom morse config i timings =
   timings @ go config (if i = 0 then None else Some (morse ! (i - 1))) (drop i morse)"
proof (induction morse config i timings rule: scanFrom.induct)
  case (1 morse config i timings)
  show ?case
  proof (cases "i < length morse")
    case True
    have d: "drop i morse = morse ! i # drop (Suc i) morse"
      using True by (simp add: Cons_nth_drop_Suc)
    have "scanFrom morse config i timings =
          scanFrom morse config (i + 1) (timings @ pushed morse config i)"
      using True by (subst scanFrom.simps) simp
    also have "\<dots> = (timings @ pushed morse config i) @
                    go config (Some (morse ! i)) (drop (Suc i) morse)"
      using "1.IH" [OF True] True by simp
    finally show ?thesis
      using True by (simp add: d pushed_emit)
  next
    case False
    with "1.prems" have "i = length morse" by simp
    then show ?thesis by (subst scanFrom.simps) simp
  qed
qed

lemma join_Cons: "join sep (x # xs) = x @ concat (map (\<lambda>y. sep @ y) xs)"
  by (induction sep "x # xs" arbitrary: x xs rule: join.induct) auto

lemma join_Cons_Cons: "join sep (x # y # xs) = x @ sep @ join sep (y # xs)"
  by simp

lemma go_letter:
  assumes "l \<noteq> []" "list_all isSymbol l"
    and "rest = [] \<or> hd rest = CHR '' '' \<or> hd rest = CHR ''/''"
  shows "go config prev (l @ rest) = letterEvents config l @ go config (Some (last l)) rest"
  using assms
proof (induction l arbitrary: prev)
  case Nil
  then show ?case by simp
next
  case (Cons c cs)
  show ?case
  proof (cases cs)
    case Nil
    with Cons.prems show ?thesis
      by (cases rest)
        (auto simp: letterEvents_def symbolEvent_def emit_def isSymbol_def)
  next
    case (Cons d ds)
    with Cons.prems have sym: "isSymbol c" "isSymbol d" by simp_all
    have "go config prev ((c # cs) @ rest) =
          symbolEvent config c @ [\<lparr>type = SymbolGap, duration = symbolGap config\<rparr>] @
          go config (Some c) (cs @ rest)"
      using sym Cons by (auto simp: emit_def symbolEvent_def isSymbol_def)
    also have "go config (Some c) (cs @ rest) =
               letterEvents config cs @ go config (Some (last cs)) rest"
      using Cons.IH [of "Some c"] Cons.prems Cons by simp
    finally show ?thesis
      using Cons by (simp add: letterEvents_def)
  qed
qed

lemma hd_join_letters:
  "l \<noteq> [] \<Longrightarrow> hd (join sep (l # ls) @ rest) = hd l"
  by (simp add: join_Cons)

lemma last_symbol: "l \<noteq> [] \<Longrightarrow> list_all isSymbol l \<Longrightarrow> isSymbol (last l)"
  by (induction l) (auto split: if_splits)

lemma go_word:
  assumes "w \<noteq> []" "list_all isLetterCode w"
    and "rest = [] \<or> hd rest = CHR '' ''"
  shows "go config prev (join '' '' w @ rest) =
         wordEvents config w @ go config (Some (last (last w))) rest"
  using assms
proof (induction w arbitrary: prev)
  case Nil
  then show ?case by simp
next
  case (Cons l ls)
  from Cons.prems have l: "l \<noteq> []" "list_all isSymbol l"
    by (simp_all add: isLetterCode_def)
  show ?case
  proof (cases ls)
    case Nil
    then show ?thesis
      using go_letter [OF l, of rest config prev] Cons.prems
      by (auto simp: wordEvents_def)
  next
    case (Cons m ms)
    from Cons.prems Cons have m: "m \<noteq> []" "list_all isSymbol m"
      by (simp_all add: isLetterCode_def)
    let ?tail = "join '' '' (m # ms) @ rest"
    have hd_tail: "hd ?tail = hd m" using m by (simp add: join_Cons)
    have tail_ne: "?tail \<noteq> []" using m by (simp add: join_Cons)
    have hdm: "isSymbol (hd m)" using m by (cases m) auto
    have lastl: "isSymbol (last l)" using l by (rule last_symbol)
    have "go config prev (join '' '' (l # ls) @ rest) =
          go config prev (l @ (CHR '' '' # ?tail))"
      using Cons by simp
    also have "\<dots> = letterEvents config l @ go config (Some (last l)) (CHR '' '' # ?tail)"
      by (rule go_letter [OF l]) simp
    also have "go config (Some (last l)) (CHR '' '' # ?tail) =
               [\<lparr>type = LetterGap, duration = letterGap config\<rparr>] @
               go config (Some (CHR '' '')) ?tail"
      using hd_tail tail_ne hdm lastl
      by (cases ?tail) (auto simp: emit_def isSymbol_def)
    also have "go config (Some (CHR '' '')) ?tail =
               wordEvents config ls @ go config (Some (last (last ls))) rest"
      using Cons.IH [of "Some (CHR '' '')"] Cons.prems Cons by simp
    finally show ?thesis
      using Cons by (simp add: wordEvents_def)
  qed
qed

lemma go_text:
  assumes "list_all isWordCode ws"
  shows "go config prev (render ws) = textEvents config ws"
  using assms
proof (induction ws arbitrary: prev)
  case Nil
  then show ?case by (simp add: render_def textEvents_def)
next
  case (Cons w ws)
  from Cons.prems have w: "w \<noteq> []" "list_all isLetterCode w"
    by (simp_all add: isWordCode_def)
  show ?case
  proof (cases ws)
    case Nil
    then show ?thesis
      using go_word [OF w, of "[]" config prev]
      by (simp add: render_def textEvents_def)
  next
    case (Cons v vs)
    from Cons.prems Cons have v: "v \<noteq> []" "list_all isLetterCode v"
      by (simp_all add: isWordCode_def)
    then obtain m ms where vm: "v = m # ms" "m \<noteq> []" "list_all isSymbol m"
      by (cases v) (auto simp: isLetterCode_def)
    let ?tail = "render ws"
    have tail: "?tail = m @ concat (map (\<lambda>y. '' '' @ y) ms) @
                  concat (map (\<lambda>y. '' / '' @ y) (map (join '' '') vs))"
      using Cons vm by (simp add: render_def join_Cons)
    obtain c cs where ccs: "?tail = c # cs" "isSymbol c"
      using tail vm by (cases m) auto
    have "isLetterCode (last w)"
      using w last_in_set [of w] by (simp add: list_all_iff)
    then have lastw: "isSymbol (last (last w))"
      by (simp add: isLetterCode_def last_symbol)
    have "go config prev (render (w # ws)) =
          go config prev (join '' '' w @ ('' / '' @ ?tail))"
      using Cons by (simp add: render_def)
    also have "\<dots> = wordEvents config w @
                    go config (Some (last (last w))) ('' / '' @ ?tail)"
      by (rule go_word [OF w]) simp
    also have "go config (Some (last (last w))) ('' / '' @ ?tail) =
               [\<lparr>type = WordGap, duration = wordGap config\<rparr>] @
               go config (Some (CHR '' '')) ?tail"
      using ccs lastw by (auto simp: emit_def isSymbol_def)
    also have "go config (Some (CHR '' '')) ?tail = textEvents config ws"
      using Cons.IH [of "Some (CHR '' '')"] Cons.prems by simp
    finally show ?thesis
      using Cons by (simp add: textEvents_def)
  qed
qed

lemma trim_empty_iff: "trim s = [] \<longleftrightarrow> list_all isWhiteSpace s"
proof
  assume "trim s = []"
  then have "dropWhile isWhiteSpace (rev (dropWhile isWhiteSpace s)) = []"
    by (simp add: trim_def)
  then have "\<forall>c \<in> set (dropWhile isWhiteSpace s). isWhiteSpace c"
    by (simp add: dropWhile_eq_Nil_conv)
  moreover have "dropWhile isWhiteSpace s = [] \<or> \<not> isWhiteSpace (hd (dropWhile isWhiteSpace s))"
    using hd_dropWhile by blast
  ultimately have "dropWhile isWhiteSpace s = []"
    by (cases "dropWhile isWhiteSpace s") auto
  then show "list_all isWhiteSpace s"
    by (simp add: dropWhile_eq_Nil_conv list_all_iff)
next
  assume "list_all isWhiteSpace s"
  then have "dropWhile isWhiteSpace s = []"
    by (simp add: dropWhile_eq_Nil_conv list_all_iff)
  then show "trim s = []" by (simp add: trim_def del: dropWhile_eq_Nil_conv)
qed

lemma symbol_not_white: "isSymbol c \<Longrightarrow> \<not> isWhiteSpace c"
  by (auto simp: isSymbol_def isWhiteSpace_def)

lemma render_symbol:
  assumes "list_all isWordCode ws" "ws \<noteq> []"
  shows "\<exists>c \<in> set (render ws). isSymbol c"
proof -
  obtain w ws' where ws: "ws = w # ws'" using assms(2) by (cases ws) auto
  with assms(1) obtain l ls where w: "w = l # ls" "isLetterCode l"
    by (cases w) (auto simp: isWordCode_def)
  then obtain c cs where l: "l = c # cs" "isSymbol c"
    by (cases l) (auto simp: isLetterCode_def)
  have "render ws = c # cs @ concat (map (\<lambda>y. '' '' @ y) ls) @
          concat (map (\<lambda>y. '' / '' @ y) (map (join '' '') ws'))"
    using ws w l by (simp add: render_def join_Cons)
  then show ?thesis using l by auto
qed

lemma morseToTiming_render:
  assumes "mapperFormat ws"
  shows "morseToTiming (render ws) u = textEvents (timingConfig u) ws"
proof (cases "ws = []")
  case True
  then show ?thesis by (simp add: morseToTiming_def render_def textEvents_def)
next
  case False
  from assms have wf: "list_all isWordCode ws" by (simp add: mapperFormat_def)
  obtain c where c: "c \<in> set (render ws)" "isSymbol c"
    using render_symbol [OF wf False] by blast
  then have "\<not> list_all isWhiteSpace (render ws)"
    using symbol_not_white by (auto simp: list_all_iff)
  then have "trim (render ws) \<noteq> []" by (simp add: trim_empty_iff)
  moreover have "render ws \<noteq> []" using c by auto
  ultimately have "morseToTiming (render ws) u = scanFrom (render ws) (timingConfig u) 0 []"
    by (simp add: morseToTiming_def)
  also have "\<dots> = go (timingConfig u) None (render ws)"
    by (simp add: scanFrom_go)
  finally show ?thesis by (simp add: go_text [OF wf])
qed

lemma alternates_append:
  "alternates (xs @ ys) \<longleftrightarrow>
   alternates xs \<and> alternates ys \<and>
   (xs \<noteq> [] \<and> ys \<noteq> [] \<longrightarrow> isSignal (last xs) \<noteq> isSignal (hd ys))"
proof (induction xs rule: alternates.induct)
  case 1
  then show ?case by simp
next
  case (2 x)
  then show ?case by (cases ys) auto
next
  case (3 x y xs)
  then show ?case by auto
qed

lemma signalRun_gap_append:
  assumes "signalRun xs" "signalRun ys" "\<not> isSignal g"
  shows "signalRun (xs @ [g] @ ys)"
proof -
  from assms(2) obtain y ys' where ys: "ys = y # ys'" by (cases ys) (auto simp: signalRun_def)
  have "alternates ([g] @ ys)"
    using assms ys by (simp add: signalRun_def)
  then show ?thesis
    using assms ys by (simp add: signalRun_def alternates_append)
qed

lemma join_signalRun:
  assumes "xss \<noteq> []" "\<forall>xs \<in> set xss. signalRun xs" "\<not> isSignal g"
  shows "signalRun (join [g] xss)"
  using assms
proof (induction "[g]" xss rule: join.induct)
  case 1
  then show ?case by simp
next
  case (2 x)
  then show ?case by simp
next
  case (3 x y xs)
  then have "signalRun (join [g] (y # xs))" by simp
  moreover have "signalRun x" using 3 by simp
  ultimately show ?case
    using signalRun_gap_append [of x "join [g] (y # xs)" g] 3 by simp
qed

lemma signalRun_symbolEvent: "signalRun (symbolEvent config c)"
  by (simp add: signalRun_def symbolEvent_def isSignal_def)

lemma signalRun_letterEvents: "l \<noteq> [] \<Longrightarrow> signalRun (letterEvents config l)"
  unfolding letterEvents_def
  by (rule join_signalRun) (auto simp: signalRun_symbolEvent isSignal_def)

lemma signalRun_wordEvents:
  assumes "isWordCode w"
  shows "signalRun (wordEvents config w)"
  unfolding wordEvents_def
proof (rule join_signalRun)
  show "map (letterEvents config) w \<noteq> []" using assms by (simp add: isWordCode_def)
  show "\<forall>xs \<in> set (map (letterEvents config) w). signalRun xs"
    using assms by (auto simp: isWordCode_def isLetterCode_def list_all_iff signalRun_letterEvents)
  show "\<not> isSignal \<lparr>type = LetterGap, duration = letterGap config\<rparr>"
    by (simp add: isSignal_def)
qed

lemma alternates_textEvents:
  assumes "list_all isWordCode ws"
  shows "alternates (textEvents config ws)"
proof (cases "ws = []")
  case True
  then show ?thesis by (simp add: textEvents_def)
next
  case False
  have "signalRun (textEvents config ws)"
    unfolding textEvents_def
  proof (rule join_signalRun)
    show "map (wordEvents config) ws \<noteq> []" using False by simp
    show "\<forall>xs \<in> set (map (wordEvents config) ws). signalRun xs"
      using assms by (auto simp: list_all_iff signalRun_wordEvents)
    show "\<not> isSignal \<lparr>type = WordGap, duration = wordGap config\<rparr>"
      by (simp add: isSignal_def)
  qed
  then show ?thesis by (simp add: signalRun_def)
qed

lemma alternates_nth:
  "alternates xs \<Longrightarrow> Suc i < length xs \<Longrightarrow> isSignal (xs ! i) \<noteq> isSignal (xs ! Suc i)"
proof (induction xs arbitrary: i rule: alternates.induct)
  case 1
  then show ?case by simp
next
  case (2 x)
  then show ?case by simp
next
  case (3 x y xs)
  then show ?case by (cases i) auto
qed

lemma alternates_between:
  assumes alt: "alternates xs"
    and ij: "i < j" "j < length xs"
    and si: "isSignal (xs ! i)" and sj: "isSignal (xs ! j)"
    and none: "\<forall>k. i < k \<and> k < j \<longrightarrow> \<not> isSignal (xs ! k)"
  shows "j = i + 2 \<and> \<not> isSignal (xs ! (i + 1))"
proof -
  have g1: "\<not> isSignal (xs ! Suc i)"
    using alternates_nth [OF alt, of i] ij si by simp
  then have "j \<noteq> Suc i" using sj by auto
  with ij have j2: "Suc (Suc i) \<le> j" by simp
  have s2: "isSignal (xs ! Suc (Suc i))"
    using alternates_nth [OF alt, of "Suc i"] g1 j2 ij by simp
  have "\<not> Suc (Suc i) < j"
    using none s2 by auto
  with j2 have "j = Suc (Suc i)" by simp
  with g1 show ?thesis by simp
qed

text \<open>
  Claim C2. For every morse string in the output format of the Symbol Mapper (letters of
  \<open>.\<close> and \<open>-\<close> separated by single spaces, words separated by \<^verbatim>\<open>" / "\<close>), the sequence
  returned by \<open>morseToTiming\<close> has exactly one gap event between two consecutive signal-on
  events (two signals with no signal between them are two places apart, and the event
  between them is a gap), and never two adjacent gap events. (Lemma
  \<open>textToMorse_mapperFormat\<close> below shows that \<open>textToMorse\<close> returns only such strings.)
\<close>

theorem morseToTiming_one_gap_between_signals:
  assumes "mapperFormat ws"
  shows "(\<forall>i j. i < j \<and> j < length (morseToTiming (render ws) u) \<and>
            isSignal (morseToTiming (render ws) u ! i) \<and>
            isSignal (morseToTiming (render ws) u ! j) \<and>
            (\<forall>k. i < k \<and> k < j \<longrightarrow> \<not> isSignal (morseToTiming (render ws) u ! k))
            \<longrightarrow> j = i + 2 \<and> \<not> isSignal (morseToTiming (render ws) u ! (i + 1))) \<and>
         (\<forall>i. i + 1 < length (morseToTiming (render ws) u) \<longrightarrow>
            isSignal (morseToTiming (render ws) u ! i) \<or>
            isSignal (morseToTiming (render ws) u ! (i + 1)))"
proof -
  let ?evs = "morseToTiming (render ws) u"
  have alt: "alternates ?evs"
    using assms by (simp add: morseToTiming_render mapperFormat_def alternates_textEvents)
  show ?thesis
  proof (intro conjI allI impI)
    fix i j
    assume "i < j \<and> j < length ?evs \<and> isSignal (?evs ! i) \<and> isSignal (?evs ! j) \<and>
            (\<forall>k. i < k \<and> k < j \<longrightarrow> \<not> isSignal (?evs ! k))"
    then show "j = i + 2" "\<not> isSignal (?evs ! (i + 1))"
      using alternates_between [OF alt, of i j] by blast+
  next
    fix i
    assume "i + 1 < length ?evs"
    then show "isSignal (?evs ! i) \<or> isSignal (?evs ! (i + 1))"
      using alternates_nth [OF alt, of i] by auto
  qed
qed

theorem morseToTiming_one_gap_between_signals_witness:
  "mapperFormat [[''.-'', ''-''], [''.'']] \<and>
   render [[''.-'', ''-''], [''.'']] = ''.- - / .'' \<and>
   map type (morseToTiming ''.- - / .'' 100) =
     [Dit, SymbolGap, Dah, LetterGap, Dah, WordGap, Dit] \<and>
   \<not> isSignal (morseToTiming (render [[''.-'', ''-''], [''.'']]) 100 ! (4 + 1))"
proof -
  let ?ws = "[[''.-'', ''-''], [''.'']]"
  let ?evs = "morseToTiming (render ?ws) 100"
  have wf: "mapperFormat ?ws"
    by (simp add: mapperFormat_def isWordCode_def isLetterCode_def isSymbol_def)
  have r: "render ?ws = ''.- - / .''"
    by (simp add: render_def)
  have evs: "map type (morseToTiming ''.- - / .'' 100) =
             [Dit, SymbolGap, Dah, LetterGap, Dah, WordGap, Dit]"
    by code_simp
  have len: "length ?evs = 7"
    using arg_cong [OF evs, of length] by (simp add: r)
  have ty: "type (?evs ! k) = [Dit, SymbolGap, Dah, LetterGap, Dah, WordGap, Dit] ! k"
    if "k < 7" for k
    using that evs len r nth_map [of k "morseToTiming ''.- - / .'' 100" type] by simp
  have s4: "isSignal (?evs ! 4)" using ty [of 4] by (simp add: isSignal_def)
  have s6: "isSignal (?evs ! 6)" using ty [of 6] by (simp add: isSignal_def)
  have g5: "\<not> isSignal (?evs ! 5)" using ty [of 5] by (simp add: isSignal_def)
  have between: "\<forall>k. 4 < k \<and> k < 6 \<longrightarrow> \<not> isSignal (?evs ! k)"
  proof (intro allI impI)
    fix k :: nat
    assume "4 < k \<and> k < 6"
    then have "k = 5" by arith
    then show "\<not> isSignal (?evs ! k)" using g5 by simp
  qed
  have "(4::nat) < 6 \<and> 6 < length ?evs \<and> isSignal (?evs ! 4) \<and> isSignal (?evs ! 6) \<and>
        (\<forall>k. 4 < k \<and> k < 6 \<longrightarrow> \<not> isSignal (?evs ! k))"
    using len s4 s6 between by simp
  then have "\<not> isSignal (?evs ! (4 + 1))"
    using morseToTiming_one_gap_between_signals [OF wf, of 100] by blast
  then show ?thesis
    using wf r evs by simp
qed

lemma scanFrom_concat:
  "scanFrom morse config i timings =
   timings @ concat (map (pushed morse config) [i..<length morse])"
proof (induction morse config i timings rule: scanFrom.induct)
  case (1 morse config i timings)
  show ?case
  proof (cases "i < length morse")
    case True
    then have "scanFrom morse config i timings =
               scanFrom morse config (i + 1) (timings @ pushed morse config i)"
      by (subst scanFrom.simps) simp
    then show ?thesis
      using "1.IH" [OF True] True by (simp add: upt_conv_Cons)
  next
    case False
    then show ?thesis by (subst scanFrom.simps) simp
  qed
qed

lemma pushed_units:
  "e \<in> set (pushed morse (timingConfig u) i) \<Longrightarrow> duration e = units (type e) * u"
  by (auto simp: pushed_def timingConfig_def defaultTimingConfig_def Let_def split: if_splits)

lemma morseToTiming_units:
  "e \<in> set (morseToTiming morse u) \<Longrightarrow> duration e = units (type e) * u"
  by (auto simp: morseToTiming_def scanFrom_concat pushed_units split: if_splits)

lemma morseToTiming_dit: "morseToTiming ''.'' 100 = [\<lparr>type = Dit, duration = 100\<rparr>]"
  by code_simp

lemma morseToTiming_dah: "morseToTiming ''-'' 100 = [\<lparr>type = Dah, duration = 300\<rparr>]"
  by code_simp

lemma morseToTiming_dit_dah:
  "morseToTiming ''.-'' 100 =
   [\<lparr>type = Dit, duration = 100\<rparr>, \<lparr>type = SymbolGap, duration = 100\<rparr>,
    \<lparr>type = Dah, duration = 300\<rparr>]"
  by code_simp

text \<open>
  Claim C6. \<open>morseToTiming\<close> maps \<open>.\<close> with time unit 100 to the single event Dit(100),
  \<open>-\<close> to Dah(300), and \<open>.-\<close> to exactly the three events Dit(100), SymbolGap(100),
  Dah(300); and for every string and time unit, every emitted event lasts the fixed
  multiple of the time unit given by \<open>units\<close>: dit 1, dah 3, symbol gap 1, letter gap 3,
  word gap 7.
\<close>

theorem morseToTiming_durations:
  "morseToTiming ''.'' 100 = [\<lparr>type = Dit, duration = 100\<rparr>] \<and>
   morseToTiming ''-'' 100 = [\<lparr>type = Dah, duration = 300\<rparr>] \<and>
   morseToTiming ''.-'' 100 =
     [\<lparr>type = Dit, duration = 100\<rparr>, \<lparr>type = SymbolGap, duration = 100\<rparr>,
      \<lparr>type = Dah, duration = 300\<rparr>] \<and>
   (\<forall>e \<in> set (morseToTiming morse u). duration e = units (type e) * u)"
  using morseToTiming_dit morseToTiming_dah morseToTiming_dit_dah morseToTiming_units
  by blast

theorem morseToTiming_durations_witness:
  "\<lparr>type = WordGap, duration = 840\<rparr> \<in> set (morseToTiming ''.- / -'' 120) \<and>
   duration \<lparr>type = WordGap, duration = 840\<rparr> = units (type \<lparr>type = WordGap, duration = 840\<rparr>) * 120"
proof -
  have m: "\<lparr>type = WordGap, duration = 840\<rparr> \<in> set (morseToTiming ''.- / -'' 120)"
    by code_simp
  with morseToTiming_durations [of "''.- / -''" 120] show ?thesis by blast
qed

lemma emit_signal_count:
  "length (filter isSignal (emit config prev c nxt)) = (if isSymbol c then 1 else 0)"
  by (simp add: emit_def isSignal_def isSymbol_def)

lemma go_signal_count:
  "length (filter isSignal (go config prev s)) = length (filter isSymbol s)"
  by (induction s arbitrary: prev) (simp_all add: emit_signal_count)

lemma morseToTiming_signal_count:
  "length (filter isSignal (morseToTiming morse u)) = length (filter isSymbol morse)"
proof (cases "morse = [] \<or> length (trim morse) = 0")
  case True
  then have "list_all isWhiteSpace morse" by (auto simp: trim_empty_iff)
  then have "filter isSymbol morse = []"
    using symbol_not_white by (auto simp: list_all_iff filter_empty_conv)
  with True show ?thesis by (simp add: morseToTiming_def)
next
  case False
  then show ?thesis
    by (simp add: morseToTiming_def scanFrom_go go_signal_count)
qed

lemma not_signal_gap: "(\<not> isSignal e) = isGap e"
  by (cases "type e") (simp_all add: isSignal_def isGap_def)

text \<open>
  Claim C8. For every input text, \<open>morseToTiming (textToMorse text)\<close> returns (both
  functions are total: the loop \<open>scanFrom\<close> was shown to terminate where it is defined),
  its signal-on events are exactly as many as the \<open>.\<close> and \<open>-\<close> characters of
  \<open>textToMorse text\<close>, and every other event is a gap event.
\<close>

theorem roundtrip_signal_count:
  "(\<exists>evs. morseToTiming (textToMorse text) u = evs) \<and>
   length (filter isSignal (morseToTiming (textToMorse text) u)) =
     length (filter isSymbol (textToMorse text)) \<and>
   filter (\<lambda>e. \<not> isSignal e) (morseToTiming (textToMorse text) u) =
     filter isGap (morseToTiming (textToMorse text) u)"
  by (simp add: morseToTiming_signal_count not_signal_gap)

lemma pushed_outside_alphabet:
  "\<not> inAlphabet (morse ! i) \<Longrightarrow> pushed morse config i = []"
  by (simp add: pushed_def inAlphabet_def Let_def)

lemma concat_map_filter_nonempty:
  "(\<And>x. x \<in> set xs \<Longrightarrow> \<not> P x \<Longrightarrow> f x = []) \<Longrightarrow>
   concat (map f (filter P xs)) = concat (map f xs)"
  by (induction xs) auto

text \<open>
  Claim C10. For every input string, \<open>morseToTiming\<close> emits no event for a character
  outside the alphabet \<open>.\<close>, \<open>-\<close>, space, \<open>/\<close>: the iteration of the scan at such a
  character leaves the array of events as it is, the output is the concatenation of what
  the iterations at characters of the alphabet push, and a string with no character of
  the alphabet yields no event.
\<close>

theorem morseToTiming_skips_other_characters:
  "(\<forall>i timings. i < length morse \<and> \<not> inAlphabet (morse ! i) \<longrightarrow>
      scanFrom morse (timingConfig u) i timings =
      scanFrom morse (timingConfig u) (i + 1) timings) \<and>
   morseToTiming morse u =
     (if morse = [] \<or> length (trim morse) = 0 then []
      else concat (map (pushed morse (timingConfig u))
             (filter (\<lambda>i. inAlphabet (morse ! i)) [0..<length morse]))) \<and>
   ((\<forall>c \<in> set morse. \<not> inAlphabet c) \<longrightarrow> morseToTiming morse u = [])"
proof (intro conjI allI impI)
  fix i timings
  assume "i < length morse \<and> \<not> inAlphabet (morse ! i)"
  then show "scanFrom morse (timingConfig u) i timings =
             scanFrom morse (timingConfig u) (i + 1) timings"
    by (subst scanFrom.simps) (simp add: pushed_outside_alphabet)
next
  show eq: "morseToTiming morse u =
     (if morse = [] \<or> length (trim morse) = 0 then []
      else concat (map (pushed morse (timingConfig u))
             (filter (\<lambda>i. inAlphabet (morse ! i)) [0..<length morse])))"
    by (simp add: morseToTiming_def scanFrom_concat concat_map_filter_nonempty
        pushed_outside_alphabet)
  assume "\<forall>c \<in> set morse. \<not> inAlphabet c"
  then have "filter (\<lambda>i. inAlphabet (morse ! i)) [0..<length morse] = []"
    by (simp add: filter_empty_conv)
  then show "morseToTiming morse u = []"
    by (simp add: eq)
qed

theorem morseToTiming_skips_other_characters_witness:
  "0 < length ''a.b'' \<and> \<not> inAlphabet (''a.b'' ! 0) \<and>
   scanFrom ''a.b'' (timingConfig 100) 0 [] = scanFrom ''a.b'' (timingConfig 100) (0 + 1) [] \<and>
   morseToTiming ''a.b'' 100 = pushed ''a.b'' (timingConfig 100) 1 \<and>
   list_all (\<lambda>c. \<not> inAlphabet c) ''x1'' \<and> morseToTiming ''x1'' 100 = []"
proof -
  have a: "0 < length ''a.b'' \<and> \<not> inAlphabet (''a.b'' ! 0)"
    by (simp add: inAlphabet_def)
  have f: "filter (\<lambda>i. inAlphabet (''a.b'' ! i)) [0..<length ''a.b''] = [1]"
    by code_simp
  have t: "\<not> (''a.b'' = [] \<or> length (trim ''a.b'') = 0)"
    by code_simp
  have x: "\<forall>c \<in> set ''x1''. \<not> inAlphabet c"
    by (simp add: inAlphabet_def)
  then have x': "list_all (\<lambda>c. \<not> inAlphabet c) ''x1''"
    unfolding list_all_iff .
  have e1: "scanFrom ''a.b'' (timingConfig 100) 0 [] =
            scanFrom ''a.b'' (timingConfig 100) (0 + 1) []"
    using morseToTiming_skips_other_characters [of "''a.b''" 100] a by blast
  have e2: "morseToTiming ''a.b'' 100 = pushed ''a.b'' (timingConfig 100) 1"
    using morseToTiming_skips_other_characters [of "''a.b''" 100] f t by simp
  have e3: "morseToTiming ''x1'' 100 = []"
    using morseToTiming_skips_other_characters [of "''x1''" 100] x by blast
  show ?thesis
    using a x' e1 e2 e3 by blast
qed

text \<open>
  A character outside the alphabet pushes nothing, but the lookahead of the character
  before it still reads it: the test after a \<open>.\<close> or \<open>-\<close> is "the next character exists and
  is neither a space nor a slash", so the iteration at \<open>.\<close> pushes its SymbolGap before
  the \<open>x\<close> of \<^verbatim>\<open>".x"\<close> as it does before a further symbol.
\<close>

lemma lookahead_reads_other_characters:
  "morseToTiming ''.x'' 100 =
     [\<lparr>type = Dit, duration = 100\<rparr>, \<lparr>type = SymbolGap, duration = 100\<rparr>] \<and>
   pushed ''.x'' (timingConfig 100) 0 =
     [\<lparr>type = Dit, duration = 100\<rparr>, \<lparr>type = SymbolGap, duration = 100\<rparr>] \<and>
   pushed ''.x'' (timingConfig 100) 1 = []"
  by code_simp

lemma codes_nonempty: "map_of MORSE_CODE_MAP c = Some m \<Longrightarrow> m \<noteq> []"
proof -
  assume "map_of MORSE_CODE_MAP c = Some m"
  then have "(c, m) \<in> set MORSE_CODE_MAP" by (rule map_of_SomeD)
  moreover have "list_all (\<lambda>(k, v). v \<noteq> []) MORSE_CODE_MAP"
    by (simp add: MORSE_CODE_MAP_def)
  ultimately show ?thesis by (auto simp: list_all_iff)
qed

lemma supported_iff:
  "c \<noteq> CHR '' '' \<Longrightarrow> c \<in> set getSupportedCharacters \<longleftrightarrow> lookupMorse c \<noteq> []"
proof -
  assume c: "c \<noteq> CHR '' ''"
  have "c \<in> set getSupportedCharacters \<longleftrightarrow> c \<in> fst ` set MORSE_CODE_MAP"
    using c by (auto simp: getSupportedCharacters_def)
  also have "\<dots> \<longleftrightarrow> map_of MORSE_CODE_MAP c \<noteq> None"
    by (simp add: map_of_eq_None_iff)
  also have "\<dots> \<longleftrightarrow> lookupMorse c \<noteq> []"
    by (auto simp: lookupMorse_def codes_nonempty split: option.splits)
  finally show ?thesis .
qed

lemma morseLetters_eq:
  "CHR '' '' \<notin> set word \<Longrightarrow>
   filter (\<lambda>morse. morse \<noteq> []) (map lookupMorse word) =
   map lookupMorse (filter (\<lambda>c. c \<in> set getSupportedCharacters) word)"
  by (induction word) (auto simp: supported_iff)

lemma split_no_sep: "w \<in> set (split sep s) \<Longrightarrow> sep \<notin> set w"
proof (induction s arbitrary: w)
  case Nil
  then show ?case by simp
next
  case (Cons c cs)
  then show ?case
    by (cases "split sep cs") (auto split: if_splits)
qed

lemma morseWords_eq:
  "map morseWord (split (CHR '' '') s) =
   map (\<lambda>word. join '' '' (map lookupMorse
          (filter (\<lambda>c. c \<in> set getSupportedCharacters) word))) (split (CHR '' '') s)"
proof (rule map_cong [OF refl])
  fix word
  assume "word \<in> set (split (CHR '' '') s)"
  then have "CHR '' '' \<notin> set word" by (rule split_no_sep)
  then show "morseWord word =
     join '' '' (map lookupMorse (filter (\<lambda>c. c \<in> set getSupportedCharacters) word))"
    by (simp add: morseWord_def morseLetters_eq)
qed

lemma white_upper: "isWhiteSpace c \<Longrightarrow> toUpperCaseChar c = [c]"
proof -
  assume "isWhiteSpace c"
  then have "c \<in> set [CHR 0x09, CHR 0x0A, CHR 0x0B, CHR 0x0C, CHR 0x0D, CHR '' '', CHR 0xA0]"
    by (simp add: isWhiteSpace_def)
  moreover have "list_all (\<lambda>c. toUpperCaseChar c = [c])
      [CHR 0x09, CHR 0x0A, CHR 0x0B, CHR 0x0C, CHR 0x0D, CHR '' '', CHR 0xA0]"
    by code_simp
  ultimately show ?thesis unfolding list_all_iff by blast
qed

lemma white_unsupported: "isWhiteSpace c \<Longrightarrow> c \<notin> set getSupportedCharacters"
proof -
  assume "isWhiteSpace c"
  then have "c \<in> set [CHR 0x09, CHR 0x0A, CHR 0x0B, CHR 0x0C, CHR 0x0D, CHR '' '', CHR 0xA0]"
    by (simp add: isWhiteSpace_def)
  moreover have "list_all (\<lambda>c. c \<notin> set getSupportedCharacters)
      [CHR 0x09, CHR 0x0A, CHR 0x0B, CHR 0x0C, CHR 0x0D, CHR '' '', CHR 0xA0]"
    by (simp add: getSupportedCharacters_def MORSE_CODE_MAP_def)
  ultimately show ?thesis unfolding list_all_iff by blast
qed

lemma toUpperCase_white: "list_all isWhiteSpace s \<Longrightarrow> toUpperCase s = s"
  by (induction s) (auto simp: toUpperCase_def white_upper)

lemma split_subset: "w \<in> set (split sep s) \<Longrightarrow> set w \<subseteq> set s"
proof (induction s arbitrary: w)
  case Nil
  then show ?case by simp
next
  case (Cons c cs)
  show ?case
  proof (cases "split sep cs")
    case Nil
    with Cons.prems show ?thesis by (auto split: if_splits)
  next
    case (Cons a list)
    have a: "set a \<subseteq> set cs" using Cons.IH [of a] Cons by simp
    have l: "\<And>v. v \<in> set list \<Longrightarrow> set v \<subseteq> set cs" using Cons.IH Cons by simp
    from Cons.prems Cons show ?thesis
      using a l by (auto split: if_splits)
  qed
qed

lemma textToMorseSpec_white:
  assumes "list_all isWhiteSpace text"
  shows "textToMorseSpec text = []"
proof -
  have "filter (\<lambda>c. c \<in> set getSupportedCharacters) word = []"
    if "word \<in> set (split (CHR '' '') text)" for word
    using that split_subset [OF that] assms white_unsupported
    by (auto simp: filter_empty_conv list_all_iff)
  then have "filter (\<lambda>w. w \<noteq> [])
          (map (\<lambda>word. join '' '' (map lookupMorse
                  (filter (\<lambda>c. c \<in> set getSupportedCharacters) word)))
             (split (CHR '' '') text)) = []"
    by (simp add: filter_empty_conv)
  then show ?thesis
    using assms by (simp add: textToMorseSpec_def toUpperCase_white)
qed

lemma textToMorse_refines: "textToMorse text = textToMorseSpec text"
proof (cases "text = [] \<or> length (trim text) = 0")
  case True
  then have w: "list_all isWhiteSpace text" by (auto simp: trim_empty_iff)
  from True have "textToMorse text = []" by (simp add: textToMorse_def)
  then show ?thesis using textToMorseSpec_white [OF w] by simp
next
  case False
  then show ?thesis
    by (simp add: textToMorse_def textToMorseSpec_def morseWords_eq Let_def)
qed

lemma textToMorse_SOS: "textToMorse ''SOS'' = ''... --- ...''"
  by code_simp

lemma textToMorse_HELLO_WORLD:
  "textToMorse ''HELLO WORLD'' = ''.... . .-.. .-.. --- / .-- --- .-. .-.. -..''"
  by code_simp

lemma textToMorse_white: "\<forall>c \<in> set text. isWhiteSpace c \<Longrightarrow> textToMorse text = []"
  by (simp add: textToMorse_def trim_empty_iff list_all_iff)

text \<open>
  Claim C7. \<open>textToMorse\<close> upper-cases its input, maps each character through the fixed
  table, drops the unsupported characters, joins letters with single spaces and words
  with \<^verbatim>\<open>" / "\<close> (it equals \<open>textToMorseSpec\<close>, which says just that); it maps
  \<^verbatim>\<open>"SOS"\<close> to \<^verbatim>\<open>"... --- ..."\<close> and \<^verbatim>\<open>"HELLO WORLD"\<close> to
  \<^verbatim>\<open>".... . .-.. .-.. --- / .-- --- .-. .-.. -.."\<close>, and empty or white-space-only input
  to the empty string.
\<close>

theorem textToMorse_correct:
  "textToMorse text = textToMorseSpec text \<and>
   textToMorse ''SOS'' = ''... --- ...'' \<and>
   textToMorse ''HELLO WORLD'' = ''.... . .-.. .-.. --- / .-- --- .-. .-.. -..'' \<and>
   textToMorse '''' = '''' \<and>
   ((\<forall>c \<in> set text. isWhiteSpace c) \<longrightarrow> textToMorse text = '''')"
  using textToMorse_refines textToMorse_SOS textToMorse_HELLO_WORLD textToMorse_white
  by (simp add: textToMorse_def)

theorem textToMorse_correct_witness:
  "list_all isWhiteSpace [CHR '' '', CHR 0x09, CHR '' ''] \<and>
   textToMorse [CHR '' '', CHR 0x09, CHR '' ''] = '''' \<and>
   textToMorse ''Hi, you'' = textToMorseSpec ''Hi, you'' \<and>
   textToMorseSpec ''Hi, you'' = ''.... .. --..-- / -.-- --- ..-''"
proof -
  have w: "\<forall>c \<in> set [CHR '' '', CHR 0x09, CHR '' '']. isWhiteSpace c"
    by (simp add: isWhiteSpace_def)
  then have w': "list_all isWhiteSpace [CHR '' '', CHR 0x09, CHR '' '']"
    unfolding list_all_iff .
  have s: "textToMorseSpec ''Hi, you'' = ''.... .. --..-- / -.-- --- ..-''"
    by code_simp
  have e1: "textToMorse [CHR '' '', CHR 0x09, CHR '' ''] = ''''"
    using textToMorse_correct [of "[CHR '' '', CHR 0x09, CHR '' '']"] w by blast
  have e2: "textToMorse ''Hi, you'' = textToMorseSpec ''Hi, you''"
    using textToMorse_correct [of "''Hi, you''"] by blast
  show ?thesis
    using w' e1 e2 s by blast
qed

text \<open>
  Every output of \<open>textToMorse\<close> is a string of the format that \<open>mapperFormat\<close> and
  \<open>render\<close> describe, so the property of claim C2 holds of
  \<open>morseToTiming (textToMorse text)\<close> for every text.
\<close>

lemma codes_are_letters:
  assumes "map_of MORSE_CODE_MAP c = Some m" "c \<noteq> CHR '' ''"
  shows "isLetterCode m"
proof -
  from assms(1) have "(c, m) \<in> set MORSE_CODE_MAP" by (rule map_of_SomeD)
  moreover have "list_all (\<lambda>(k, v). k \<noteq> CHR '' '' \<longrightarrow> isLetterCode v) MORSE_CODE_MAP"
    by (simp add: MORSE_CODE_MAP_def isLetterCode_def isSymbol_def)
  ultimately show ?thesis using assms(2) by (auto simp: list_all_iff)
qed

lemma supported_letter:
  assumes "c \<in> set getSupportedCharacters"
  shows "isLetterCode (lookupMorse c)"
proof -
  from assms have c: "c \<noteq> CHR '' ''" "c \<in> fst ` set MORSE_CODE_MAP"
    by (auto simp: getSupportedCharacters_def)
  then obtain m where m: "map_of MORSE_CODE_MAP c = Some m"
    by (cases "map_of MORSE_CODE_MAP c") (auto simp: map_of_eq_None_iff)
  then show ?thesis
    using codes_are_letters [OF m c(1)] by (simp add: lookupMorse_def)
qed

lemma join_eq_Nil:
  "\<forall>l \<in> set ls. l \<noteq> [] \<Longrightarrow> join sep ls = [] \<longleftrightarrow> ls = []"
  by (cases ls) (auto simp: join_Cons)

lemma textToMorse_mapperFormat:
  "\<exists>ws. mapperFormat ws \<and> textToMorse text = render ws"
proof -
  let ?letters = "\<lambda>word. map lookupMorse (filter (\<lambda>c. c \<in> set getSupportedCharacters) word)"
  let ?words = "split (CHR '' '') (toUpperCase text)"
  let ?ws = "filter (\<lambda>w. w \<noteq> []) (map ?letters ?words)"
  have letters: "list_all isLetterCode (?letters word)" for word
    by (simp add: list_all_iff supported_letter)
  then have ne: "join '' '' (?letters word) \<noteq> [] \<longleftrightarrow> ?letters word \<noteq> []" for word
    using join_eq_Nil [of "?letters word" "'' ''"]
    by (auto simp: list_all_iff isLetterCode_def)
  have "filter (\<lambda>w. w \<noteq> []) (map (\<lambda>word. join '' '' (?letters word)) ?words) =
        map (join '' '') ?ws"
    by (simp add: filter_map comp_def ne)
  then have "textToMorse text = render ?ws"
    by (simp add: textToMorse_refines textToMorseSpec_def render_def)
  moreover have "mapperFormat ?ws"
    using letters by (auto simp: mapperFormat_def isWordCode_def list_all_iff)
  ultimately show ?thesis by blast
qed

section \<open>Properties of the rounding to doubles\<close>

lemma powi_bitlen:
  assumes "0 < p"
  shows "(2::rat) powi (bitlen p - 1) \<le> of_int p" "of_int p < (2::rat) powi bitlen p"
proof -
  from bitlen_bounds [OF assms]
  have lo: "2 ^ nat (bitlen p - 1) \<le> p" and hi: "p < 2 ^ nat (bitlen p)" by simp_all
  have b1: "1 \<le> bitlen p" using assms by (simp add: bitlen_alt_def)
  have "(of_int (2 ^ nat (bitlen p - 1)) :: rat) \<le> of_int p"
    using lo by (simp only: of_int_le_iff)
  then show "(2::rat) powi (bitlen p - 1) \<le> of_int p"
    using b1 by (simp add: power_int_nonneg_exp)
  have "(of_int p :: rat) < of_int (2 ^ nat (bitlen p))"
    using hi by (simp only: of_int_less_iff)
  then show "of_int p < (2::rat) powi bitlen p"
    using b1 by (simp add: power_int_nonneg_exp)
qed

lemma exponentOf_bounds:
  assumes "0 < x"
  shows "2 powi exponentOf x \<le> x" "x < 2 powi (exponentOf x + 1)"
proof -
  obtain p q where pq: "quotient_of x = (p, q)" by (cases "quotient_of x")
  have q: "0 < q" using pq by (rule quotient_of_denom_pos)
  have x: "x = of_int p / of_int q" using pq by (rule quotient_of_div)
  have p: "0 < p" using assms q x by (simp add: zero_less_divide_iff)
  let ?k = "bitlen p - bitlen q"
  have P: "(2::rat) powi (bitlen p - 1) \<le> of_int p" "of_int p < (2::rat) powi bitlen p"
    using powi_bitlen [OF p] by simp_all
  have Q: "(2::rat) powi (bitlen q - 1) \<le> of_int q" "of_int q < (2::rat) powi bitlen q"
    using powi_bitlen [OF q] by simp_all
  have qpos: "(0::rat) < of_int q" using q by simp
  have upper: "x < 2 powi (?k + 1)"
  proof -
    have "of_int p < (2::rat) powi bitlen p" by (rule P)
    also have "\<dots> = 2 powi (?k + 1) * 2 powi (bitlen q - 1)"
      by (simp add: power_int_add [symmetric])
    also have "\<dots> \<le> 2 powi (?k + 1) * of_int q"
      using Q(1) by (simp add: mult_left_mono)
    finally show ?thesis using qpos by (simp add: x pos_divide_less_eq)
  qed
  have lower: "2 powi (?k - 1) < x"
  proof -
    have "2 powi (?k - 1) * of_int q < 2 powi (?k - 1) * (2::rat) powi bitlen q"
      using Q(2) by (simp add: mult_strict_left_mono)
    also have "\<dots> = 2 powi (bitlen p - 1)"
      by (simp add: power_int_add [symmetric])
    also have "\<dots> \<le> of_int p" by (rule P)
    finally show ?thesis using qpos by (simp add: x pos_less_divide_eq)
  qed
  have e: "exponentOf x = (if 2 powi ?k \<le> x then ?k else ?k - 1)"
    using assms pq by (simp add: exponentOf_def)
  show "2 powi exponentOf x \<le> x"
    using lower by (simp add: e)
  show "x < 2 powi (exponentOf x + 1)"
    using upper by (auto simp add: e not_le)
qed

lemma powi_less_exp: "(2::rat) powi a < 2 powi b \<Longrightarrow> a < b"
  using power_int_increasing [of b a "2::rat"] by (cases "a < b") auto

lemma powi_le_exp: "(2::rat) powi a \<le> 2 powi b \<Longrightarrow> a \<le> b"
  using power_int_strict_increasing [of b a "2::rat"] by (cases "a \<le> b") auto

lemma exponentOf_unique:
  assumes "0 < x" "2 powi E \<le> x" "x < 2 powi (E + 1)"
  shows "exponentOf x = E"
proof -
  have "(2::rat) powi exponentOf x < 2 powi (E + 1)"
    using exponentOf_bounds(1) [OF assms(1)] assms(3) by simp
  then have a: "exponentOf x < E + 1"
    by (rule powi_less_exp)
  have "(2::rat) powi E < 2 powi (exponentOf x + 1)"
    using exponentOf_bounds(2) [OF assms(1)] assms(2) by simp
  then have "E < exponentOf x + 1"
    by (rule powi_less_exp)
  with a show ?thesis by simp
qed

lemma roundHalfEven_bounds:
  "\<lfloor>m\<rfloor> \<le> roundHalfEven m" "roundHalfEven m \<le> \<lfloor>m\<rfloor> + 1"
  by (simp_all add: roundHalfEven_def Let_def)

lemma roundHalfEven_of_int [simp]: "roundHalfEven (of_int n) = n"
  by (simp add: roundHalfEven_def)

lemma roundHalfEven_mono:
  assumes "m \<le> m'"
  shows "roundHalfEven m \<le> roundHalfEven m'"
proof (cases "\<lfloor>m\<rfloor> < \<lfloor>m'\<rfloor>")
  case True
  have "roundHalfEven m \<le> \<lfloor>m\<rfloor> + 1" by (rule roundHalfEven_bounds)
  also have "\<dots> \<le> \<lfloor>m'\<rfloor>" using True by simp
  also have "\<dots> \<le> roundHalfEven m'" by (rule roundHalfEven_bounds)
  finally show ?thesis .
next
  case False
  with assms have f: "\<lfloor>m\<rfloor> = \<lfloor>m'\<rfloor>"
    using floor_mono [OF assms] by simp
  then have "m - of_int \<lfloor>m\<rfloor> \<le> m' - of_int \<lfloor>m'\<rfloor>" using assms by simp
  then show ?thesis
    by (auto simp: roundHalfEven_def Let_def f)
qed

lemma roundHalfEven_ge: "of_int n \<le> m \<Longrightarrow> n \<le> roundHalfEven m"
  using roundHalfEven_mono [of "of_int n" m] by simp

lemma roundHalfEven_le: "m \<le> of_int n \<Longrightarrow> roundHalfEven m \<le> n"
  using roundHalfEven_mono [of m "of_int n"] by simp

lemma powi_split: "(2::rat) powi E = 2 powi 52 * 2 powi (E - 52)"
  by (simp add: power_int_add [symmetric] del: power_int_numeral)

lemma powi_split1: "(2::rat) powi (E + 1) = 2 powi 53 * 2 powi (E - 52)"
proof -
  have "E + 1 = 53 + (E - 52)" by simp
  then have "(2::rat) powi (E + 1) = 2 powi (53 + (E - 52))" by (rule arg_cong)
  also have "\<dots> = 2 powi 53 * 2 powi (E - 52)" by (rule power_int_add) simp
  finally show ?thesis .
qed

lemma mantissa_bounds:
  assumes "0 < x"
  shows "2 powi 52 \<le> x / 2 powi (exponentOf x - 52)"
    and "x / 2 powi (exponentOf x - 52) < 2 powi 53"
proof -
  let ?e = "exponentOf x - 52"
  have pos: "(0::rat) < 2 powi ?e" by simp
  have "2 powi 52 * 2 powi ?e \<le> x"
    using exponentOf_bounds(1) [OF assms] powi_split [of "exponentOf x"] by simp
  then show "2 powi 52 \<le> x / 2 powi ?e"
    using pos by (simp only: pos_le_divide_eq)
  have "x < 2 powi 53 * 2 powi ?e"
    using exponentOf_bounds(2) [OF assms] powi_split1 [of "exponentOf x"] by simp
  then show "x / 2 powi ?e < 2 powi 53"
    using pos by (simp only: pos_divide_less_eq)
qed

lemma roundDouble_pos_eq:
  "0 < x \<Longrightarrow>
   roundDouble x =
     of_int (roundHalfEven (x / 2 powi (exponentOf x - 52))) * 2 powi (exponentOf x - 52)"
  by (simp add: roundDouble_def Let_def)

lemma roundDouble_0 [simp]: "roundDouble 0 = 0"
  by (simp add: roundDouble_def)

lemma exponentOf_minus [simp]: "exponentOf (- x) = exponentOf x"
  by (simp add: exponentOf_def)

lemma roundDouble_minus: "roundDouble (- x) = - roundDouble x"
  by (simp add: roundDouble_def Let_def sgn_minus)

lemma roundDouble_range:
  assumes "0 < x"
  shows "2 powi exponentOf x \<le> roundDouble x" "roundDouble x \<le> 2 powi (exponentOf x + 1)"
proof -
  let ?e = "exponentOf x - 52"
  let ?m = "x / 2 powi ?e"
  have p: "(2::rat) powi 52 = of_int (2 ^ 52)" "(2::rat) powi 53 = of_int (2 ^ 53)"
    by simp_all
  have "2 ^ 52 \<le> roundHalfEven ?m"
    using mantissa_bounds(1) [OF assms] unfolding p by (rule roundHalfEven_ge)
  then have "(of_int (2 ^ 52) :: rat) \<le> of_int (roundHalfEven ?m)"
    by (simp only: of_int_le_iff)
  then have "(of_int (2 ^ 52) :: rat) * 2 powi ?e \<le> of_int (roundHalfEven ?m) * 2 powi ?e"
    by (rule mult_right_mono) simp
  then have "(2::rat) powi 52 * 2 powi ?e \<le> of_int (roundHalfEven ?m) * 2 powi ?e"
    unfolding p .
  then show "2 powi exponentOf x \<le> roundDouble x"
    using powi_split [of "exponentOf x"] by (simp add: roundDouble_pos_eq [OF assms])
  have "?m \<le> 2 powi 53" using mantissa_bounds(2) [OF assms] by simp
  then have "roundHalfEven ?m \<le> 2 ^ 53"
    unfolding p by (rule roundHalfEven_le)
  then have "(of_int (roundHalfEven ?m) :: rat) \<le> of_int (2 ^ 53)"
    by (simp only: of_int_le_iff)
  then have "(of_int (roundHalfEven ?m) :: rat) * 2 powi ?e \<le> of_int (2 ^ 53) * 2 powi ?e"
    by (rule mult_right_mono) simp
  then have "(of_int (roundHalfEven ?m) :: rat) * 2 powi ?e \<le> 2 powi 53 * 2 powi ?e"
    unfolding p .
  then show "roundDouble x \<le> 2 powi (exponentOf x + 1)"
    using powi_split1 [of "exponentOf x"] by (simp add: roundDouble_pos_eq [OF assms])
qed

lemma roundDouble_pos: "0 < x \<Longrightarrow> 0 < roundDouble x"
  using roundDouble_range(1) [of x] zero_less_power_int [of "2::rat" "exponentOf x"]
  by linarith

lemma exponentOf_mono:
  assumes "0 < x" "x \<le> y"
  shows "exponentOf x \<le> exponentOf y"
proof -
  have y: "0 < y" using assms by simp
  have "2 powi exponentOf x \<le> x" using exponentOf_bounds(1) [OF assms(1)] .
  also have "x \<le> y" by fact
  also have "y < 2 powi (exponentOf y + 1)" using exponentOf_bounds(2) [OF y] .
  finally have "exponentOf x < exponentOf y + 1" by (rule powi_less_exp)
  then show ?thesis by simp
qed

lemma roundDouble_mono_pos:
  assumes "0 < x" "x \<le> y"
  shows "roundDouble x \<le> roundDouble y"
proof (cases "exponentOf x = exponentOf y")
  case True
  have y: "0 < y" using assms by simp
  let ?e = "exponentOf y - 52"
  have "x / 2 powi ?e \<le> y / 2 powi ?e"
    using assms(2) by (simp add: divide_right_mono)
  then have "roundHalfEven (x / 2 powi ?e) \<le> roundHalfEven (y / 2 powi ?e)"
    by (rule roundHalfEven_mono)
  then have "(of_int (roundHalfEven (x / 2 powi ?e)) :: rat) \<le>
             of_int (roundHalfEven (y / 2 powi ?e))"
    by (simp only: of_int_le_iff)
  then have "(of_int (roundHalfEven (x / 2 powi ?e)) :: rat) * 2 powi ?e \<le>
             of_int (roundHalfEven (y / 2 powi ?e)) * 2 powi ?e"
    by (rule mult_right_mono) simp
  then show ?thesis
    by (simp add: roundDouble_pos_eq [OF assms(1)] roundDouble_pos_eq [OF y] True)
next
  case False
  have y: "0 < y" using assms by simp
  from False exponentOf_mono [OF assms] have lt: "exponentOf x + 1 \<le> exponentOf y" by simp
  have "roundDouble x \<le> 2 powi (exponentOf x + 1)" using roundDouble_range(2) [OF assms(1)] .
  also have "\<dots> \<le> 2 powi exponentOf y"
    using lt by (intro power_int_increasing) simp_all
  also have "\<dots> \<le> roundDouble y" using roundDouble_range(1) [OF y] .
  finally show ?thesis .
qed

lemma roundDouble_nonneg: "0 \<le> x \<Longrightarrow> 0 \<le> roundDouble x"
  using roundDouble_pos [of x] by (cases "x = 0") auto

lemma roundDouble_nonpos: "x \<le> 0 \<Longrightarrow> roundDouble x \<le> 0"
  using roundDouble_nonneg [of "- x"] by (simp add: roundDouble_minus)

lemma roundDouble_mono:
  assumes "x \<le> y"
  shows "roundDouble x \<le> roundDouble y"
proof -
  consider "0 < x" | "x \<le> 0" "0 \<le> y" | "y < 0" by linarith
  then show ?thesis
  proof cases
    case 1
    then show ?thesis using assms by (rule roundDouble_mono_pos)
  next
    case 2
    then show ?thesis
      using roundDouble_nonpos [of x] roundDouble_nonneg [of y] by linarith
  next
    case 3
    then have "roundDouble (- y) \<le> roundDouble (- x)"
      using assms by (intro roundDouble_mono_pos) simp_all
    then show ?thesis by (simp add: roundDouble_minus)
  qed
qed

lemma roundDouble_idem_pos:
  assumes "0 < x"
  shows "roundDouble (roundDouble x) = roundDouble x"
proof -
  let ?E = "exponentOf x"
  let ?e = "?E - 52"
  let ?r = "roundHalfEven (x / 2 powi ?e)"
  let ?y = "roundDouble x"
  have y: "?y = of_int ?r * 2 powi ?e" using assms by (rule roundDouble_pos_eq)
  have ypos: "0 < ?y" using assms by (rule roundDouble_pos)
  have lo: "2 powi ?E \<le> ?y" and hi: "?y \<le> 2 powi (?E + 1)"
    using roundDouble_range [OF assms] by simp_all
  show ?thesis
  proof (cases "?y < 2 powi (?E + 1)")
    case True
    have E: "exponentOf ?y = ?E" using ypos lo True by (rule exponentOf_unique)
    have q: "?y / 2 powi ?e = of_int ?r" by (simp add: y)
    have "roundDouble ?y = of_int (roundHalfEven (?y / 2 powi ?e)) * 2 powi ?e"
      using roundDouble_pos_eq [OF ypos] unfolding E .
    also have "\<dots> = of_int ?r * 2 powi ?e"
      unfolding q roundHalfEven_of_int ..
    also have "\<dots> = ?y" using y by simp
    finally show ?thesis .
  next
    case False
    with hi have top: "?y = 2 powi (?E + 1)" by simp
    have "?y < 2 powi (?E + 1 + 1)"
      unfolding top by (intro power_int_strict_increasing) simp_all
    with ypos have E: "exponentOf ?y = ?E + 1"
      by (intro exponentOf_unique) (simp_all add: top)
    have "?y / 2 powi (?E + 1 - 52) = 2 powi 52"
      unfolding top using powi_split [of "?E + 1"] by simp
    also have "\<dots> = of_int (2 ^ 52)" by simp
    finally have m: "?y / 2 powi (?E + 1 - 52) = of_int (2 ^ 52)" .
    have "roundDouble ?y = of_int (roundHalfEven (?y / 2 powi (?E + 1 - 52))) * 2 powi (?E + 1 - 52)"
      using roundDouble_pos_eq [OF ypos] by (simp add: E)
    also have "\<dots> = 2 powi 52 * 2 powi (?E + 1 - 52)"
      unfolding m roundHalfEven_of_int by simp
    also have "\<dots> = 2 powi (?E + 1)" using powi_split [of "?E + 1"] by simp
    finally show ?thesis using top by simp
  qed
qed

lemma roundDouble_idem [simp]: "roundDouble (roundDouble x) = roundDouble x"
proof -
  consider "0 < x" | "x = 0" | "x < 0" by linarith
  then show ?thesis
  proof cases
    case 1
    then show ?thesis by (rule roundDouble_idem_pos)
  next
    case 2
    then show ?thesis by simp
  next
    case 3
    then have "roundDouble (roundDouble (- x)) = roundDouble (- x)"
      by (intro roundDouble_idem_pos) simp
    then show ?thesis by (simp add: roundDouble_minus)
  qed
qed

lemma roundDouble_of_int_pos:
  assumes "0 < n" "n < 2 ^ 53"
  shows "roundDouble (of_int n) = of_int n"
proof -
  let ?x = "of_int n :: rat"
  let ?E = "exponentOf ?x"
  have x: "0 < ?x" using assms by simp
  have "?x < of_int (2 ^ 53)" using assms(2) by (simp only: of_int_less_iff)
  then have "?x < 2 powi 53" by simp
  with exponentOf_bounds(1) [OF x] have "(2::rat) powi ?E < 2 powi 53" by simp
  then have E: "?E < 53" by (rule powi_less_exp)
  define k where "k = nat (52 - ?E)"
  have e: "?E - 52 = - int k" using E by (simp add: k_def)
  have p: "(2::rat) powi (?E - 52) = inverse (2 ^ k)"
    unfolding e by (simp add: power_int_minus)
  have m: "?x / 2 powi (?E - 52) = of_int (n * 2 ^ k)"
    unfolding p by (simp add: divide_inverse)
  have "roundDouble ?x = of_int (roundHalfEven (?x / 2 powi (?E - 52))) * 2 powi (?E - 52)"
    using x by (rule roundDouble_pos_eq)
  also have "\<dots> = of_int (n * 2 ^ k) * 2 powi (?E - 52)"
    unfolding m roundHalfEven_of_int ..
  also have "\<dots> = of_int (n * 2 ^ k) * inverse (2 ^ k)"
    unfolding p ..
  also have "\<dots> = ?x" by simp
  finally show ?thesis .
qed

lemma roundDouble_of_int:
  assumes "\<bar>n\<bar> < 2 ^ 53"
  shows "roundDouble (of_int n) = of_int n"
proof -
  consider "0 < n" | "n = 0" | "n < 0" by linarith
  then show ?thesis
  proof cases
    case 1
    then show ?thesis using assms by (intro roundDouble_of_int_pos) simp_all
  next
    case 2
    then show ?thesis by simp
  next
    case 3
    then have "roundDouble (of_int (- n)) = of_int (- n)"
      using assms by (intro roundDouble_of_int_pos) simp_all
    then show ?thesis by (simp add: roundDouble_minus)
  qed
qed

text \<open>
  The products \<^verbatim>\<open>timeUnit * 3\<close> and \<^verbatim>\<open>timeUnit * 7\<close> of \<^verbatim>\<open>morseToTiming\<close> are exact in doubles
  for every whole-millisecond unit of realistic size.
\<close>

lemma timeUnit_products_exact:
  assumes "\<bar>u\<bar> * 7 < 2 ^ 53"
  shows "fmul (of_int u) 3 = of_int u * 3" "fmul (of_int u) 7 = of_int u * 7"
proof -
  have "\<bar>u * 3\<bar> < 2 ^ 53" "\<bar>u * 7\<bar> < 2 ^ 53"
    using assms by (simp_all add: abs_mult)
  then have "roundDouble (of_int (u * 3)) = of_int (u * 3)"
    "roundDouble (of_int (u * 7)) = of_int (u * 7)"
    by (simp_all only: roundDouble_of_int)
  then show "fmul (of_int u) 3 = of_int u * 3" "fmul (of_int u) 7 = of_int u * 7"
    by (simp_all add: fmul_def)
qed

subsection \<open>Evaluating a rounding\<close>

text \<open>
  A rounding is evaluated from the scaled value \<open>x * 2 ^ k\<close> that lies in
  \<open>[2 ^ 52, 2 ^ 53)\<close>: the result is the integer nearest to it, over \<open>2 ^ k\<close>.
\<close>

lemma roundHalfEven_near:
  assumes "of_int r - 1 / 2 < m" "m < of_int r + 1 / 2"
  shows "roundHalfEven m = r"
proof (cases "of_int r \<le> m")
  case True
  then have f: "\<lfloor>m\<rfloor> = r" using assms(2) by (intro floor_unique) simp_all
  show ?thesis using assms(2) by (simp add: roundHalfEven_def Let_def f)
next
  case False
  then have f: "\<lfloor>m\<rfloor> = r - 1" using assms(1) by (intro floor_unique) simp_all
  show ?thesis using assms(1) by (simp add: roundHalfEven_def Let_def f)
qed

lemma roundHalfEven_half:
  assumes "m = of_int f + 1 / 2"
  shows "roundHalfEven m = (if even f then f else f + 1)"
proof -
  have "\<lfloor>m\<rfloor> = f" unfolding assms by (intro floor_unique) simp_all
  then show ?thesis by (simp add: roundHalfEven_def Let_def assms)
qed

lemma roundDouble_scaled:
  assumes "2 ^ 52 \<le> x * 2 ^ k" "x * 2 ^ k < 2 ^ 53"
  shows "roundDouble x = of_int (roundHalfEven (x * 2 ^ k)) / 2 ^ k"
proof -
  have pos: "0 < x"
  proof (rule ccontr)
    assume "\<not> 0 < x"
    then have "x * 2 ^ k \<le> 0" by (simp add: mult_le_0_iff)
    moreover have "(0::rat) < 2 ^ 52" by simp
    ultimately show False using assms(1) by linarith
  qed
  have p: "(2::rat) powi (52 - int k) = 2 ^ 52 / 2 ^ k"
    by (simp add: power_int_diff)
  have p1: "(2::rat) powi (52 - int k + 1) = 2 ^ 53 / 2 ^ k"
  proof -
    have "52 - int k + 1 = 53 - int k" by simp
    then show ?thesis by (simp add: power_int_diff)
  qed
  have "2 powi (52 - int k) \<le> x"
    unfolding p using assms(1) by (simp add: pos_divide_le_eq)
  moreover have "x < 2 powi (52 - int k + 1)"
    unfolding p1 using assms(2) by (simp add: pos_less_divide_eq)
  ultimately have E: "exponentOf x = 52 - int k"
    using pos by (intro exponentOf_unique)
  have e: "(2::rat) powi (exponentOf x - 52) = inverse (2 ^ k)"
    unfolding E by (simp add: power_int_minus)
  have m: "x / 2 powi (exponentOf x - 52) = x * 2 ^ k"
    unfolding e by (simp add: divide_inverse)
  have "roundDouble x =
          of_int (roundHalfEven (x / 2 powi (exponentOf x - 52))) * 2 powi (exponentOf x - 52)"
    using pos by (rule roundDouble_pos_eq)
  then show ?thesis unfolding m e by (simp add: divide_inverse)
qed

lemma roundDouble_eval:
  assumes "2 ^ 52 \<le> x * 2 ^ k" "x * 2 ^ k < 2 ^ 53"
    and "of_int r - 1 / 2 < x * 2 ^ k" "x * 2 ^ k < of_int r + 1 / 2"
  shows "roundDouble x = of_int r / 2 ^ k"
  using roundDouble_scaled [OF assms(1,2)] roundHalfEven_near [OF assms(3,4)] by simp

lemma roundDouble_tie:
  assumes "2 ^ 52 \<le> x * 2 ^ k" "x * 2 ^ k < 2 ^ 53"
    and "x * 2 ^ k = of_int f + 1 / 2"
  shows "roundDouble x = of_int (if even f then f else f + 1) / 2 ^ k"
  using roundDouble_scaled [OF assms(1,2)] roundHalfEven_half [OF assms(3)] by simp

lemma roundDouble_numeral:
  "numeral n < (2::int) ^ 53 \<Longrightarrow> roundDouble (numeral n) = numeral n"
  using roundDouble_of_int [of "numeral n"] by simp

text \<open>Whole numbers add and divide by 1 without rounding.\<close>

lemmas double_whole = fadd_def fdiv_def roundDouble_numeral

subsection \<open>The timings of the examples\<close>

lemma timing_dot: "morseToTiming ''.'' 100 = [\<lparr>type = Dit, duration = 100\<rparr>]"
  by code_simp

lemma timing_dash: "morseToTiming ''-'' 100 = [\<lparr>type = Dah, duration = 300\<rparr>]"
  by code_simp

lemma timing_dot_dash:
  "morseToTiming ''.-'' 100 =
     [\<lparr>type = Dit, duration = 100\<rparr>, \<lparr>type = SymbolGap, duration = 100\<rparr>,
      \<lparr>type = Dah, duration = 300\<rparr>]"
  by code_simp

lemma timing_three_dots:
  "morseToTiming ''...'' 100 =
     [\<lparr>type = Dit, duration = 100\<rparr>, \<lparr>type = SymbolGap, duration = 100\<rparr>,
      \<lparr>type = Dit, duration = 100\<rparr>, \<lparr>type = SymbolGap, duration = 100\<rparr>,
      \<lparr>type = Dit, duration = 100\<rparr>]"
  by code_simp

lemma timing_OK:
  "morseToTiming ''--- -.-'' 120 =
     [\<lparr>type = Dah, duration = 360\<rparr>, \<lparr>type = SymbolGap, duration = 120\<rparr>,
      \<lparr>type = Dah, duration = 360\<rparr>, \<lparr>type = SymbolGap, duration = 120\<rparr>,
      \<lparr>type = Dah, duration = 360\<rparr>, \<lparr>type = LetterGap, duration = 360\<rparr>,
      \<lparr>type = Dah, duration = 360\<rparr>, \<lparr>type = SymbolGap, duration = 120\<rparr>,
      \<lparr>type = Dit, duration = 120\<rparr>, \<lparr>type = SymbolGap, duration = 120\<rparr>,
      \<lparr>type = Dah, duration = 360\<rparr>]"
  by code_simp

section \<open>Properties of the live playback\<close>

lemma runningSum_0: "runningSum timings speed 0 = 0"
  by (simp add: runningSum_def calculateTotalDuration_def)

lemma runningSum_Suc:
  "i < length timings \<Longrightarrow>
   runningSum timings speed (Suc i) =
     fadd (runningSum timings speed i) (fdiv (duration (timings ! i)) speed)"
  by (simp add: runningSum_def calculateTotalDuration_def take_Suc_conv_app_nth)

lemma seekLoop_first:
  assumes "i \<le> k" "k < length timings"
    and "accumulatedTime = runningSum timings speed i"
    and "targetTime \<le> runningSum timings speed (k + 1)"
    and "\<forall>j. i \<le> j \<and> j < k \<longrightarrow> runningSum timings speed (j + 1) < targetTime"
  shows "seekLoop timings speed targetTime i accumulatedTime = (k, runningSum timings speed k)"
  using assms
proof (induction timings speed targetTime i accumulatedTime rule: seekLoop.induct)
  case (1 timings speed targetTime i accumulatedTime)
  have il: "i < length timings" using "1.prems" by simp
  have step: "runningSum timings speed (i + 1) =
              fadd accumulatedTime (fdiv (duration (timings ! i)) speed)"
    using il "1.prems"(3) by (simp add: runningSum_Suc)
  show ?case
  proof (cases "i = k")
    case True
    then show ?thesis
      using il step "1.prems" by (subst seekLoop.simps) (simp add: Let_def)
  next
    case False
    with "1.prems" have ik: "i < k" by simp
    then have lt: "runningSum timings speed (i + 1) < targetTime"
      using "1.prems"(5) by simp
    have "seekLoop timings speed targetTime (i + 1)
            (fadd accumulatedTime (fdiv (duration (timings ! i)) speed)) =
          (k, runningSum timings speed k)"
    proof (rule "1.IH" [OF il refl])
      show "\<not> targetTime \<le> fadd accumulatedTime (fdiv (duration (timings ! i)) speed)"
        using lt step by simp
      show "i + 1 \<le> k" using ik by simp
      show "k < length timings" using "1.prems" by simp
      show "fadd accumulatedTime (fdiv (duration (timings ! i)) speed) = runningSum timings speed (i + 1)"
        using step by simp
      show "targetTime \<le> runningSum timings speed (k + 1)" using "1.prems" by simp
      show "\<forall>j. i + 1 \<le> j \<and> j < k \<longrightarrow> runningSum timings speed (j + 1) < targetTime"
        using "1.prems"(5) by simp
    qed
    then show ?thesis
      using il lt step by (subst seekLoop.simps) (simp add: Let_def)
  qed
qed

lemma pausePlayback_keeps:
  "currentTimings (pausePlayback now s) = currentTimings s"
  "currentSpeed (pausePlayback now s) = currentSpeed s"
  "totalDuration (playbackState (pausePlayback now s)) = totalDuration (playbackState s)"
  "isPlaying (playbackState (pausePlayback now s)) = isPlaying (playbackState s)"
  by (simp_all add: pausePlayback_def clearTimeout_def Let_def split: option.splits)

lemma playSequence_at_event:
  assumes "isPlaying (playbackState s)" "\<not> isPaused (playbackState s)" "index < length timings"
  shows "currentIndex (playbackState (playSequence now timings speed index s)) = index"
    and "accumulatedDuration (playSequence now timings speed index s) = accumulatedDuration s"
  using assms by (simp_all add: playSequence_def setTimeout_def Let_def)

text \<open>
  Claim C3. \<open>seekTo position\<close> fails with the InvalidInput error
  \<^verbatim>\<open>'Position must be between 0 and 1'\<close> when \<open>position < 0\<close> or \<open>position > 1\<close>, leaving
  the state as it is. For a position in \<open>[0, 1]\<close> it sets the current event index to the
  first event \<open>k\<close> at which the running sum of speed-adjusted durations meets or exceeds
  \<open>position * totalDuration\<close>, and the accumulated elapsed time to the sum of the adjusted
  durations strictly before that event. The running sums, the total and the product are
  the doubles that the code computes: each quotient \<open>duration / speed\<close>, each addition and
  the product are rounded. (Lemma \<open>seek_target_exists\<close> shows that there is such an event
  for every position in \<open>[0, 1]\<close> in a session that \<open>playMorse\<close> started.)
\<close>

theorem seekTo_position:
  "(position < 0 \<or> position > 1 \<longrightarrow>
      seekTo now position s = (Inl ErrPositionRange, s) \<and> kind ErrPositionRange = InvalidInput) \<and>
   (0 \<le> position \<and> position \<le> 1 \<and> k < length (currentTimings s) \<and>
    fmul position (totalDuration (playbackState s)) \<le>
      runningSum (currentTimings s) (currentSpeed s) (k + 1) \<and>
    (\<forall>j<k. runningSum (currentTimings s) (currentSpeed s) (j + 1) <
       fmul position (totalDuration (playbackState s))) \<longrightarrow>
      fst (seekTo now position s) = Inr () \<and>
      currentIndex (playbackState (snd (seekTo now position s))) = k \<and>
      accumulatedDuration (snd (seekTo now position s)) =
        runningSum (currentTimings s) (currentSpeed s) k)"
proof (intro conjI impI)
  assume "position < 0 \<or> position > 1"
  then show "seekTo now position s = (Inl ErrPositionRange, s)"
    by (simp add: seekTo_def)
next
  show "kind ErrPositionRange = InvalidInput" by simp
next
  assume h: "0 \<le> position \<and> position \<le> 1 \<and> k < length (currentTimings s) \<and>
    fmul position (totalDuration (playbackState s)) \<le>
      runningSum (currentTimings s) (currentSpeed s) (k + 1) \<and>
    (\<forall>j<k. runningSum (currentTimings s) (currentSpeed s) (j + 1) <
       fmul position (totalDuration (playbackState s)))"
  let ?s1 = "pausePlayback now s"
  have loop: "seekLoop (currentTimings ?s1) (currentSpeed ?s1)
                (fmul position (totalDuration (playbackState ?s1))) 0 0 =
              (k, runningSum (currentTimings s) (currentSpeed s) k)"
    unfolding pausePlayback_keeps
    by (rule seekLoop_first) (use h in \<open>simp_all add: runningSum_0\<close>)
  have valid: "\<not> (position < 0 \<or> position > 1)" using h by simp
  show "fst (seekTo now position s) = Inr ()"
    using valid by (simp add: seekTo_def Let_def loop)
  let ?s2 = "?s1\<lparr>playbackState := (playbackState ?s1)\<lparr>currentIndex := k\<rparr>,
                  accumulatedDuration := runningSum (currentTimings s) (currentSpeed s) k,
                  currentItemStartTime := now\<rparr>"
  let ?s3 = "?s2\<lparr>playbackState := (playbackState ?s2)\<lparr>isPaused := False\<rparr>\<rparr>"
  show "currentIndex (playbackState (snd (seekTo now position s))) = k"
  proof (cases "isPlaying (playbackState s) \<and> \<not> isPaused (playbackState s)")
    case True
    have "currentIndex (playbackState
            (playSequence now (currentTimings ?s3) (currentSpeed ?s3) k ?s3)) = k"
      by (rule playSequence_at_event) (use True h in \<open>simp_all add: pausePlayback_keeps\<close>)
    then show ?thesis
      using valid True by (simp add: seekTo_def Let_def loop)
  next
    case False
    then show ?thesis
      using valid by (auto simp add: seekTo_def Let_def loop)
  qed
  show "accumulatedDuration (snd (seekTo now position s)) =
          runningSum (currentTimings s) (currentSpeed s) k"
  proof (cases "isPlaying (playbackState s) \<and> \<not> isPaused (playbackState s)")
    case True
    have "accumulatedDuration
            (playSequence now (currentTimings ?s3) (currentSpeed ?s3) k ?s3) =
          accumulatedDuration ?s3"
      by (rule playSequence_at_event) (use True h in \<open>simp_all add: pausePlayback_keeps\<close>)
    then show ?thesis
      using valid True by (simp add: seekTo_def Let_def loop)
  next
    case False
    then show ?thesis
      using valid by (auto simp add: seekTo_def Let_def loop)
  qed
qed

lemma calculateTotalDuration_runningSum:
  "calculateTotalDuration timings speed = runningSum timings speed (length timings)"
  by (simp add: runningSum_def)

lemma foldl_fadd_nonneg:
  "list_all (\<lambda>t. 0 \<le> duration t) timings \<Longrightarrow> 0 < speed \<Longrightarrow> 0 \<le> a \<Longrightarrow>
   0 \<le> foldl (\<lambda>total timing. fadd total (fdiv (duration timing) speed)) a timings"
proof (induction timings arbitrary: a)
  case Nil
  then show ?case by simp
next
  case (Cons t timings)
  have "0 \<le> duration t / speed" using Cons.prems by simp
  then have "0 \<le> fdiv (duration t) speed"
    unfolding fdiv_def by (rule roundDouble_nonneg)
  then have "0 \<le> a + fdiv (duration t) speed" using Cons.prems by simp
  then have "0 \<le> fadd a (fdiv (duration t) speed)"
    unfolding fadd_def by (rule roundDouble_nonneg)
  then show ?case using Cons.prems by (simp add: Cons.IH)
qed

lemma calculateTotalDuration_nonneg:
  "list_all (\<lambda>t. 0 \<le> duration t) timings \<Longrightarrow> 0 < speed \<Longrightarrow>
   0 \<le> calculateTotalDuration timings speed"
  by (simp add: calculateTotalDuration_def foldl_fadd_nonneg)

lemma calculateTotalDuration_double:
  "timings \<noteq> [] \<Longrightarrow>
   roundDouble (calculateTotalDuration timings speed) = calculateTotalDuration timings speed"
  by (cases timings rule: rev_cases) (simp_all add: calculateTotalDuration_def fadd_def)

lemma seek_target_exists:
  assumes "activeSession s" "0 \<le> position" "position \<le> 1"
  shows "\<exists>k < length (currentTimings s).
           fmul position (totalDuration (playbackState s)) \<le>
             runningSum (currentTimings s) (currentSpeed s) (k + 1) \<and>
           (\<forall>j<k. runningSum (currentTimings s) (currentSpeed s) (j + 1) <
              fmul position (totalDuration (playbackState s)))"
proof -
  let ?ts = "currentTimings s" and ?sp = "currentSpeed s"
  let ?total = "totalDuration (playbackState s)"
  let ?P = "\<lambda>k. fmul position ?total \<le> runningSum ?ts ?sp (k + 1)"
  have ne: "?ts \<noteq> []" using assms(1) by (simp add: activeSession_def)
  have total: "?total = runningSum ?ts ?sp (length ?ts)"
    using assms(1) by (simp add: activeSession_def calculateTotalDuration_runningSum)
  have "0 \<le> ?total"
    using assms(1) by (simp add: activeSession_def calculateTotalDuration_nonneg)
  then have "position * ?total \<le> ?total"
    using assms(3) by (simp add: mult_left_le_one_le assms(2))
  then have "roundDouble (position * ?total) \<le> roundDouble ?total"
    by (rule roundDouble_mono)
  moreover have "roundDouble ?total = ?total"
    using assms(1) ne by (simp add: activeSession_def calculateTotalDuration_double)
  ultimately have "fmul position ?total \<le> ?total"
    by (simp add: fmul_def)
  then have last: "?P (length ?ts - 1)"
    using ne total by simp
  define k where "k = (LEAST k. ?P k)"
  have Pk: "?P k" unfolding k_def using last by (rule LeastI)
  have "k \<le> length ?ts - 1" unfolding k_def using last by (rule Least_le)
  then have klt: "k < length ?ts" using ne by (cases ?ts) auto
  have "\<forall>j<k. \<not> ?P j"
    unfolding k_def using not_less_Least by blast
  then have "\<forall>j<k. runningSum ?ts ?sp (j + 1) < fmul position ?total"
    by (simp add: not_le)
  with Pk klt show ?thesis by blast
qed

lemma playMorse_activeSession:
  assumes "timings \<noteq> []" "1 / 2 \<le> speed" "speed \<le> 2"
    and "list_all (\<lambda>t. 0 \<le> duration t) timings"
  shows "activeSession (snd (playMorse now True timings speed s))"
  using assms
  by (simp add: playMorse_def activeSession_def playSequence_def startProgressTracking_def
      setInterval_def setTimeout_def Let_def)

text \<open>
  The numbers of an example: \<^verbatim>\<open>"..."\<close> at a unit of 100 ms, played at speed 1.5 and sought
  to position 0.6. Each adjusted duration is \<open>100 / 1.5\<close>, the running sums are
  66.66666666666667, 133.33333333333334, 200, 266.6666666666667 and 333.33333333333337,
  and the target \<open>0.6 * 333.33333333333337\<close> is 200.00000000000003.
\<close>

lemma adjusted_100_at_speed_3_2: "fdiv 100 (3 / 2) = 4691249611844267 / 70368744177664"
  using roundDouble_eval [of "200 / 3" 46 4691249611844267] by (simp add: fdiv_def)

lemma running_1_at_speed_3_2: "fadd 0 (4691249611844267 / 70368744177664) = 4691249611844267 / 70368744177664"
  using roundDouble_eval [of "4691249611844267 / 70368744177664" 46 4691249611844267] by (simp add: fadd_def)

lemma running_2_at_speed_3_2: "fadd (4691249611844267 / 70368744177664) (4691249611844267 / 70368744177664) = 4691249611844267 / 35184372088832"
  using roundDouble_eval [of "4691249611844267 / 35184372088832" 45 4691249611844267] by (simp add: fadd_def)

lemma running_3_at_speed_3_2: "fadd (4691249611844267 / 35184372088832) (4691249611844267 / 70368744177664) = 200"
  using roundDouble_tie [of "14073748835532801 / 70368744177664" 45 7036874417766400] by (simp add: fadd_def)

lemma running_4_at_speed_3_2: "fadd 200 (4691249611844267 / 70368744177664) = 4691249611844267 / 17592186044416"
  using roundDouble_eval [of "18764998447377067 / 70368744177664" 44 4691249611844267] by (simp add: fadd_def)

lemma running_5_at_speed_3_2: "fadd (4691249611844267 / 17592186044416) (4691249611844267 / 70368744177664) = 2932031007402667 / 8796093022208"
  using roundDouble_eval [of "23456248059221335 / 70368744177664" 44 5864062014805334] by (simp add: fadd_def)

lemma position_3_5: "roundDouble (3 / 5) = 5404319552844595 / 9007199254740992"
  using roundDouble_eval [of "3 / 5" 53 5404319552844595] by simp

lemma target_3_5: "fmul (5404319552844595 / 9007199254740992) (2932031007402667 / 8796093022208) = 7036874417766401 / 35184372088832"
  using roundDouble_eval [of "15845632502852868733742439534865 / 79228162514264337593543950336" 45 7036874417766401] by (simp add: fmul_def)

lemmas audio_eval =
  sessionOf_def sessionAtSpeed_def completedSession_def runSteps_def playMorse_def
  calculateTotalDuration_def playSequence_def startProgressTracking_def setInterval_def
  setTimeout_def fire_def clearTimeout_def clearInterval_def pausePlayback_def stopPlayback_def
  cleanup_def initialAudioService_def stoppedState_def Let_def double_whole
  timing_dot timing_dash timing_dot_dash

lemma playMorse_stores:
  assumes "timings \<noteq> []" "1 / 2 \<le> speed" "speed \<le> 2"
  shows "currentTimings (snd (playMorse now True timings speed s)) = timings"
    and "currentSpeed (snd (playMorse now True timings speed s)) = speed"
    and "totalDuration (playbackState (snd (playMorse now True timings speed s))) =
         calculateTotalDuration timings speed"
  using assms
  by (simp_all add: playMorse_def playSequence_def startProgressTracking_def
      setInterval_def setTimeout_def Let_def)

lemmas running_at_speed_3_2 =
  adjusted_100_at_speed_3_2 running_1_at_speed_3_2 running_2_at_speed_3_2
  running_3_at_speed_3_2 running_4_at_speed_3_2 running_5_at_speed_3_2

theorem seekTo_position_witness:
  "seekTo 7 (3 / 2) (sessionOf ''.-'') = (Inl ErrPositionRange, sessionOf ''.-'') \<and>
   seekTo 7 (- 1 / 4) (sessionOf ''.-'') = (Inl ErrPositionRange, sessionOf ''.-'') \<and>
   map duration (currentTimings (sessionAtSpeed ''...'' (3 / 2))) = [100, 100, 100, 100, 100] \<and>
   currentSpeed (sessionAtSpeed ''...'' (3 / 2)) = 3 / 2 \<and>
   runningSum (currentTimings (sessionAtSpeed ''...'' (3 / 2))) (3 / 2) 2 =
     4691249611844267 / 2 ^ 45 \<and>
   runningSum (currentTimings (sessionAtSpeed ''...'' (3 / 2))) (3 / 2) 3 = 200 \<and>
   runningSum (currentTimings (sessionAtSpeed ''...'' (3 / 2))) (3 / 2) 4 =
     4691249611844267 / 2 ^ 44 \<and>
   totalDuration (playbackState (sessionAtSpeed ''...'' (3 / 2))) = 5864062014805334 / 2 ^ 44 \<and>
   fmul (roundDouble (3 / 5)) (totalDuration (playbackState (sessionAtSpeed ''...'' (3 / 2)))) =
     7036874417766401 / 2 ^ 45 \<and>
   fst (seekTo 7 (roundDouble (3 / 5)) (sessionAtSpeed ''...'' (3 / 2))) = Inr () \<and>
   currentIndex (playbackState
     (snd (seekTo 7 (roundDouble (3 / 5)) (sessionAtSpeed ''...'' (3 / 2))))) = 3 \<and>
   accumulatedDuration (snd (seekTo 7 (roundDouble (3 / 5)) (sessionAtSpeed ''...'' (3 / 2)))) =
     200"
proof -
  let ?a = "sessionOf ''.-''"
  let ?s = "sessionAtSpeed ''...'' (3 / 2)"
  let ?p = "roundDouble (3 / 5)"
  let ?ts = "[\<lparr>type = Dit, duration = 100\<rparr>, \<lparr>type = SymbolGap, duration = 100\<rparr>,
              \<lparr>type = Dit, duration = 100\<rparr>, \<lparr>type = SymbolGap, duration = 100\<rparr>,
              \<lparr>type = Dit, duration = 100\<rparr>]"
  have e1: "seekTo 7 (3 / 2) ?a = (Inl ErrPositionRange, ?a)"
    using seekTo_position [of "3 / 2" 7 ?a] by simp
  have e2: "seekTo 7 (- 1 / 4) ?a = (Inl ErrPositionRange, ?a)"
    using seekTo_position [of "- 1 / 4" 7 ?a] by simp
  have m: "morseToTiming ''...'' 100 = ?ts" by (rule timing_three_dots)
  have v: "?ts \<noteq> []" "(1 / 2 :: rat) \<le> 3 / 2" "(3 / 2 :: rat) \<le> 2" by simp_all
  have ct: "currentTimings ?s = ?ts"
    unfolding sessionAtSpeed_def m using v by (rule playMorse_stores)
  have sp: "currentSpeed ?s = 3 / 2"
    unfolding sessionAtSpeed_def m using v by (rule playMorse_stores)
  have t0: "totalDuration (playbackState ?s) = calculateTotalDuration ?ts (3 / 2)"
    unfolding sessionAtSpeed_def m using v by (rule playMorse_stores)
  have d: "map duration (currentTimings ?s) = [100, 100, 100, 100, 100]"
    unfolding ct by simp
  have s1: "runningSum ?ts (3 / 2) 1 = 4691249611844267 / 2 ^ 46"
    by (simp add: runningSum_def calculateTotalDuration_def running_at_speed_3_2)
  have s2: "runningSum ?ts (3 / 2) 2 = 4691249611844267 / 2 ^ 45"
    by (simp add: runningSum_def calculateTotalDuration_def running_at_speed_3_2)
  have s3: "runningSum ?ts (3 / 2) 3 = 200"
    by (simp add: runningSum_def calculateTotalDuration_def running_at_speed_3_2)
  have s4: "runningSum ?ts (3 / 2) 4 = 4691249611844267 / 2 ^ 44"
    by (simp add: runningSum_def calculateTotalDuration_def running_at_speed_3_2)
  have t: "totalDuration (playbackState ?s) = 5864062014805334 / 2 ^ 44"
    unfolding t0 by (simp add: calculateTotalDuration_def running_at_speed_3_2)
  have tg: "fmul ?p (totalDuration (playbackState ?s)) = 7036874417766401 / 2 ^ 45"
    unfolding t by (simp add: position_3_5 target_3_5)
  have p: "0 \<le> ?p" "?p \<le> 1" by (simp_all add: position_3_5)
  have len: "3 < length (currentTimings ?s)" unfolding ct by simp
  have r4: "fmul ?p (totalDuration (playbackState ?s)) \<le>
            runningSum (currentTimings ?s) (currentSpeed ?s) (3 + 1)"
    unfolding tg ct sp using s4 by simp
  have before: "\<forall>j<3. runningSum (currentTimings ?s) (currentSpeed ?s) (j + 1) <
                  fmul ?p (totalDuration (playbackState ?s))"
  proof (intro allI impI)
    fix j :: nat
    assume "j < 3"
    then have "j = 0 \<or> j = 1 \<or> j = 2" by arith
    then show "runningSum (currentTimings ?s) (currentSpeed ?s) (j + 1) <
                 fmul ?p (totalDuration (playbackState ?s))"
      unfolding tg ct sp using s1 s2 s3 by (auto simp: numeral_2_eq_2 numeral_3_eq_3)
  qed
  have hyp: "0 \<le> ?p \<and> ?p \<le> 1 \<and> 3 < length (currentTimings ?s) \<and>
      fmul ?p (totalDuration (playbackState ?s)) \<le>
        runningSum (currentTimings ?s) (currentSpeed ?s) (3 + 1) \<and>
      (\<forall>j<3. runningSum (currentTimings ?s) (currentSpeed ?s) (j + 1) <
         fmul ?p (totalDuration (playbackState ?s)))"
    using p len r4 before by (intro conjI)
  have e3: "fst (seekTo 7 ?p ?s) = Inr () \<and>
      currentIndex (playbackState (snd (seekTo 7 ?p ?s))) = 3 \<and>
      accumulatedDuration (snd (seekTo 7 ?p ?s)) =
        runningSum (currentTimings ?s) (currentSpeed ?s) 3"
    using seekTo_position [of ?p 7 ?s 3] hyp by blast
  then have e4: "fst (seekTo 7 ?p ?s) = Inr ()"
    "currentIndex (playbackState (snd (seekTo 7 ?p ?s))) = 3"
    "accumulatedDuration (snd (seekTo 7 ?p ?s)) = 200"
    unfolding ct sp s3 by simp_all
  show ?thesis
    using e1 e2 d sp s2 s3 s4 t tg e4 unfolding ct by (intro conjI)
qed





text \<open>
  The wait of the event in progress is a timeout of its own, which no handle holds:
  \<open>stopPlayback\<close> does not cancel it, and it stays pending until the host runs it. A
  stopped engine may therefore still have a live timeout.
\<close>

lemma stopPlayback_keeps_event_wait:
  "intervals (stopPlayback (sessionOf ''.-'')) = [] \<and>
   map fst (timeouts (stopPlayback (sessionOf ''.-''))) = [2] \<and>
   map fst (timeouts (snd (playMorse 5 True (morseToTiming ''-'' 100) 1
      (stopPlayback (sessionOf ''.-''))))) = [2, 4]"
  by (simp add: audio_eval)











section \<open>Properties of the file synthesis\<close>

lemma unat_byte: "unat (toUint8 v) = v mod 256"
  by (simp add: toUint8_def unat_of_nat)

lemma le32_value:
  "(v::nat) mod 256 + 256 * (v div 256 mod 256) + 65536 * (v div 65536 mod 256) +
   16777216 * (v div 16777216 mod 256) = v mod 4294967296"
proof -
  have a: "v mod 65536 = 256 * (v div 256 mod 256) + v mod 256"
    using mod_mult2_eq [of v 256 256] by simp
  have b: "v mod 16777216 = 65536 * (v div 65536 mod 256) + v mod 65536"
    using mod_mult2_eq [of v 65536 256] by simp
  have c: "v mod 4294967296 = 16777216 * (v div 16777216 mod 256) + v mod 16777216"
    using mod_mult2_eq [of v 16777216 256] by simp
  show ?thesis using a b c by linarith
qed

lemma le16_value:
  "(v::nat) mod 256 + 256 * (v div 256 mod 256) = v mod 65536"
  using mod_mult2_eq [of v 256 256] by simp

lemma length_writeString: "length (writeString view offset s) = length view"
  by (induction s arbitrary: view offset) (simp_all add: setUint8_def)

lemma length_createWavHeader: "length (createWavHeader n sr) = 44"
  by (simp add: createWavHeader_def Let_def setUint8_def setUint16_def setUint32_def
      length_writeString)

lemma header_chunkSize:
  "getUint32 (createWavHeader n sr) 4 = (36 + n * 2) mod 4294967296"
  by (simp add: createWavHeader_def Let_def setUint8_def setUint16_def setUint32_def
      getUint32_def unat_byte nth_list_update le32_value)

lemma length_set:
  "length (setUint8 view offset v) = length view"
  "length (setUint16 view offset v) = length view"
  "length (setUint32 view offset v) = length view"
  by (simp_all add: setUint8_def setUint16_def setUint32_def)

lemma getUint32_setUint32:
  "offset + 3 < length view \<Longrightarrow>
   getUint32 (setUint32 view offset v) offset = v mod 4294967296"
  by (simp add: setUint32_def getUint32_def unat_byte nth_list_update le32_value)

lemma header_dataSize:
  "getUint32 (createWavHeader n sr) 40 = (n * 2) mod 4294967296"
  by (simp add: createWavHeader_def Let_def getUint32_setUint32 length_set length_writeString)

lemma header_format:
  "map (\<lambda>i. createWavHeader n sr ! i) [0, 1, 2, 3] = map (\<lambda>c. toUint8 (of_char c)) ''RIFF''"
  "map (\<lambda>i. createWavHeader n sr ! i) [8, 9, 10, 11] = map (\<lambda>c. toUint8 (of_char c)) ''WAVE''"
  "map (\<lambda>i. createWavHeader n sr ! i) [12, 13, 14, 15] = map (\<lambda>c. toUint8 (of_char c)) ''fmt ''"
  "map (\<lambda>i. createWavHeader n sr ! i) [36, 37, 38, 39] = map (\<lambda>c. toUint8 (of_char c)) ''data''"
  "getUint32 (createWavHeader n sr) 16 = 16"
  "getUint16 (createWavHeader n sr) 20 = 1"
  "getUint16 (createWavHeader n sr) 22 = 1"
  "getUint32 (createWavHeader n 44100) 24 = 44100"
  "getUint32 (createWavHeader n 44100) 28 = 88200"
  "getUint16 (createWavHeader n sr) 32 = 2"
  "getUint16 (createWavHeader n sr) 34 = 16"
  by (simp_all add: createWavHeader_def Let_def setUint8_def setUint16_def setUint32_def
      getUint32_def getUint16_def unat_byte nth_list_update)

lemma length_writeSamples:
  "length (fst (writeSamples sample numSamples i samples currentSampleIndex)) = length samples"
proof (induction sample numSamples i samples currentSampleIndex rule: writeSamples.induct)
  case (1 sample numSamples i samples currentSampleIndex)
  then show ?case by (subst writeSamples.simps) simp
qed

lemma length_fillSamples:
  "length (fst (fillSamples tone sampleRate speed timings st)) = length (fst st)"
proof (induction timings arbitrary: st)
  case Nil
  then show ?case by (cases st) simp
next
  case (Cons timing rest)
  obtain samples idx where st: "st = (samples, idx)" by (cases st)
  show ?case
    unfolding st by (simp add: Let_def Cons.IH length_writeSamples)
qed

lemma length_setInt16: "length (setInt16 view offset v) = length view"
  by (simp add: setInt16_def)

lemma length_copySamples: "length (copySamples view base xs i) = length view"
  by (induction xs arbitrary: view i) (simp_all add: length_setInt16)

lemma copySamples_below: "k < base \<Longrightarrow> copySamples view base xs i ! k = view ! k"
  by (induction xs arbitrary: view i) (simp_all add: setInt16_def nth_list_update)

lemma generateAudioFile_Inr:
  assumes "generateAudioFile tone writeFailure timings speed = Inr wav"
  shows "0 \<le> sampleCount timings speed"
    and "wav = copySamples
           (setBytes (replicate (44 + nat (sampleCount timings speed) * 2) 0)
              (createWavHeader (nat (sampleCount timings speed)) 44100) 0)
           44
           (fst (fillSamples tone 44100 speed timings
                   (replicate (nat (sampleCount timings speed)) 0, 0))) 0"
  using assms
  by (auto simp: generateAudioFile_def sampleCount_def Let_def length_createWavHeader
      length_fillSamples split: if_splits option.splits)

lemma wav_prefix:
  assumes "generateAudioFile tone writeFailure timings speed = Inr wav" "k < 44"
  shows "wav ! k = createWavHeader (nat (sampleCount timings speed)) 44100 ! k"
  using generateAudioFile_Inr(2) [OF assms(1)] assms(2)
  by (simp add: copySamples_below setBytes_def nth_append length_createWavHeader)

lemma wav_length:
  assumes "generateAudioFile tone writeFailure timings speed = Inr wav"
  shows "length wav = 44 + nat (sampleCount timings speed) * 2"
  using generateAudioFile_Inr(2) [OF assms]
  by (simp add: length_copySamples setBytes_def length_createWavHeader)

lemma getUint32_prefix:
  "(\<And>k. k < 44 \<Longrightarrow> view ! k = header ! k) \<Longrightarrow> offset + 3 < 44 \<Longrightarrow>
   getUint32 view offset = getUint32 header offset"
  by (simp add: getUint32_def)

lemma getUint16_prefix:
  "(\<And>k. k < 44 \<Longrightarrow> view ! k = header ! k) \<Longrightarrow> offset + 1 < 44 \<Longrightarrow>
   getUint16 view offset = getUint16 header offset"
  by (simp add: getUint16_def)

lemma sampleCount_nonneg:
  assumes "list_all (\<lambda>t. 0 \<le> duration t) timings" "0 < speed"
  shows "0 \<le> sampleCount timings speed"
proof -
  have "0 \<le> calculateTotalDuration timings speed / 1000"
    using calculateTotalDuration_nonneg [OF assms] by simp
  then have "0 \<le> fdiv (calculateTotalDuration timings speed) 1000"
    unfolding fdiv_def by (rule roundDouble_nonneg)
  then have "0 \<le> fdiv (calculateTotalDuration timings speed) 1000 * 44100"
    by simp
  then have "0 \<le> fmul (fdiv (calculateTotalDuration timings speed) 1000) 44100"
    unfolding fmul_def by (rule roundDouble_nonneg)
  then show ?thesis
    by (simp add: sampleCount_def)
qed

lemma generateAudioFile_succeeds:
  assumes "timings \<noteq> []" "1 / 2 \<le> speed" "speed \<le> 2" "0 \<le> sampleCount timings speed"
  shows "\<exists>wav. generateAudioFile tone None timings speed = Inr wav"
  using assms by (simp add: generateAudioFile_def sampleCount_def Let_def not_less)

text \<open>
  Claim C9. Every WAV that \<open>generateAudioFile\<close> produces has \<open>44 + totalSamples * 2\<close> bytes
  and starts with the 44-byte canonical PCM header: \<open>RIFF\<close>, \<open>WAVE\<close>, \<open>fmt \<close> with
  subchunk size 16, format 1 (PCM), one channel, 44100 Hz, byte rate 88200, block
  align 2, 16 bits per sample, then \<open>data\<close>. The ChunkSize field at offset 4 holds
  \<open>36 + dataSize\<close> and the Subchunk2Size field at offset 40 holds
  \<open>dataSize = totalSamples * 2\<close>, both as 32-bit values: they equal these numbers
  whenever \<open>36 + dataSize\<close> is below \<open>2 ^ 32\<close>, the most a RIFF size field can hold.
  \<open>totalSamples\<close> is \<open>sampleCount timings speed\<close>, the count that the code computes in
  doubles from the total speed-adjusted duration at 44.1 kHz.
\<close>

theorem generateAudioFile_wav:
  "generateAudioFile tone writeFailure timings speed = Inr wav \<longrightarrow>
     0 \<le> sampleCount timings speed \<and>
     length wav = 44 + nat (sampleCount timings speed) * 2 \<and>
     map (\<lambda>i. wav ! i) [0, 1, 2, 3] = map (\<lambda>c. toUint8 (of_char c)) ''RIFF'' \<and>
     map (\<lambda>i. wav ! i) [8, 9, 10, 11] = map (\<lambda>c. toUint8 (of_char c)) ''WAVE'' \<and>
     map (\<lambda>i. wav ! i) [12, 13, 14, 15] = map (\<lambda>c. toUint8 (of_char c)) ''fmt '' \<and>
     getUint32 wav 16 = 16 \<and> getUint16 wav 20 = 1 \<and> getUint16 wav 22 = 1 \<and>
     getUint32 wav 24 = 44100 \<and> getUint32 wav 28 = 88200 \<and>
     getUint16 wav 32 = 2 \<and> getUint16 wav 34 = 16 \<and>
     map (\<lambda>i. wav ! i) [36, 37, 38, 39] = map (\<lambda>c. toUint8 (of_char c)) ''data'' \<and>
     getUint32 wav 4 = (36 + nat (sampleCount timings speed) * 2) mod 4294967296 \<and>
     getUint32 wav 40 = (nat (sampleCount timings speed) * 2) mod 4294967296 \<and>
     (36 + nat (sampleCount timings speed) * 2 < 4294967296 \<longrightarrow>
        getUint32 wav 4 = 36 + nat (sampleCount timings speed) * 2 \<and>
        getUint32 wav 40 = nat (sampleCount timings speed) * 2)"
proof
  assume g: "generateAudioFile tone writeFailure timings speed = Inr wav"
  let ?n = "nat (sampleCount timings speed)"
  let ?h = "createWavHeader ?n 44100"
  have p: "\<And>k. k < 44 \<Longrightarrow> wav ! k = ?h ! k" using wav_prefix [OF g] .
  have u32: "\<And>offset. offset + 3 < 44 \<Longrightarrow> getUint32 wav offset = getUint32 ?h offset"
    using p by (rule getUint32_prefix)
  have u16: "\<And>offset. offset + 1 < 44 \<Longrightarrow> getUint16 wav offset = getUint16 ?h offset"
    using p by (rule getUint16_prefix)
  have c4: "getUint32 wav 4 = (36 + ?n * 2) mod 4294967296"
    by (simp add: u32 header_chunkSize)
  have c40: "getUint32 wav 40 = (?n * 2) mod 4294967296"
    by (simp add: u32 header_dataSize)
  have fits: "36 + ?n * 2 < 4294967296 \<longrightarrow>
        getUint32 wav 4 = 36 + ?n * 2 \<and> getUint32 wav 40 = ?n * 2"
    using c4 c40 by simp
  have fmt: "map (\<lambda>i. wav ! i) [0, 1, 2, 3] = map (\<lambda>c. toUint8 (of_char c)) ''RIFF''"
    "map (\<lambda>i. wav ! i) [8, 9, 10, 11] = map (\<lambda>c. toUint8 (of_char c)) ''WAVE''"
    "map (\<lambda>i. wav ! i) [12, 13, 14, 15] = map (\<lambda>c. toUint8 (of_char c)) ''fmt ''"
    "map (\<lambda>i. wav ! i) [36, 37, 38, 39] = map (\<lambda>c. toUint8 (of_char c)) ''data''"
    using header_format(1-4) [of ?n 44100] by (simp_all add: p)
  have num: "getUint32 wav 16 = 16" "getUint16 wav 20 = 1" "getUint16 wav 22 = 1"
    "getUint32 wav 24 = 44100" "getUint32 wav 28 = 88200"
    "getUint16 wav 32 = 2" "getUint16 wav 34 = 16"
    by (simp_all add: u32 u16 header_format)
  show "0 \<le> sampleCount timings speed \<and>
     length wav = 44 + nat (sampleCount timings speed) * 2 \<and>
     map (\<lambda>i. wav ! i) [0, 1, 2, 3] = map (\<lambda>c. toUint8 (of_char c)) ''RIFF'' \<and>
     map (\<lambda>i. wav ! i) [8, 9, 10, 11] = map (\<lambda>c. toUint8 (of_char c)) ''WAVE'' \<and>
     map (\<lambda>i. wav ! i) [12, 13, 14, 15] = map (\<lambda>c. toUint8 (of_char c)) ''fmt '' \<and>
     getUint32 wav 16 = 16 \<and> getUint16 wav 20 = 1 \<and> getUint16 wav 22 = 1 \<and>
     getUint32 wav 24 = 44100 \<and> getUint32 wav 28 = 88200 \<and>
     getUint16 wav 32 = 2 \<and> getUint16 wav 34 = 16 \<and>
     map (\<lambda>i. wav ! i) [36, 37, 38, 39] = map (\<lambda>c. toUint8 (of_char c)) ''data'' \<and>
     getUint32 wav 4 = (36 + nat (sampleCount timings speed) * 2) mod 4294967296 \<and>
     getUint32 wav 40 = (nat (sampleCount timings speed) * 2) mod 4294967296 \<and>
     (36 + nat (sampleCount timings speed) * 2 < 4294967296 \<longrightarrow>
        getUint32 wav 4 = 36 + nat (sampleCount timings speed) * 2 \<and>
        getUint32 wav 40 = nat (sampleCount timings speed) * 2)"
    using generateAudioFile_Inr(1) [OF g] wav_length [OF g] fmt num c4 c40 fits
    by (intro conjI) assumption+
qed

text \<open>
  The numbers of an example: \<^verbatim>\<open>"--- -.-"\<close> at the default unit lasts 2760 ms;
  \<open>2760 / 1000\<close> is the double 2.7599999999999998 and its product by 44100 the double
  121715.99999999999, so the file has 121715 samples.
\<close>

lemma seconds_2760: "fdiv 2760 1000 = 1553741871442821 / 562949953421312"
  using roundDouble_eval [of "69 / 25" 51 6214967485771284] by (simp add: fdiv_def)

lemma samples_2760: "fmul (1553741871442821 / 562949953421312) 44100 = 8364259830398975 / 68719476736"
  using roundDouble_eval [of "17130004132657101525 / 140737488355328" 36 8364259830398975] by (simp add: fmul_def)

theorem generateAudioFile_wav_witness:
  "calculateTotalDuration (morseToTiming ''--- -.-'' 120) 1 = 2760 \<and>
   sampleCount (morseToTiming ''--- -.-'' 120) 1 = 121715 \<and>
   generateAudioFile (\<lambda>i. 0) None (morseToTiming ''--- -.-'' 120) 1 = Inr exampleWav \<and>
   length exampleWav = 243474 \<and>
   getUint32 exampleWav 4 = 243466 \<and> getUint32 exampleWav 40 = 243430 \<and>
   getUint32 exampleWav 24 = 44100 \<and> getUint16 exampleWav 34 = 16"
proof -
  let ?ts = "morseToTiming ''--- -.-'' 120"
  have d: "calculateTotalDuration ?ts 1 = 2760"
    by (simp add: timing_OK calculateTotalDuration_def double_whole)
  have "\<lfloor>8364259830398975 / 68719476736 :: rat\<rfloor> = 121715"
    by (rule floor_unique) simp_all
  then have n: "sampleCount ?ts 1 = 121715"
    unfolding sampleCount_def d seconds_2760 samples_2760 .
  have ne: "?ts \<noteq> []"
    by (simp add: timing_OK)
  have "\<exists>wav. generateAudioFile (\<lambda>i. 0) None ?ts 1 = Inr wav"
    using ne n by (intro generateAudioFile_succeeds) simp_all
  then have g: "generateAudioFile (\<lambda>i. 0) None ?ts 1 = Inr exampleWav"
    unfolding exampleWav_def by auto
  have "length exampleWav = 44 + nat (sampleCount ?ts 1) * 2 \<and>
        getUint32 exampleWav 24 = 44100 \<and> getUint16 exampleWav 34 = 16 \<and>
        (36 + nat (sampleCount ?ts 1) * 2 < 4294967296 \<longrightarrow>
           getUint32 exampleWav 4 = 36 + nat (sampleCount ?ts 1) * 2 \<and>
           getUint32 exampleWav 40 = nat (sampleCount ?ts 1) * 2)"
    using generateAudioFile_wav [of "\<lambda>i. 0" None ?ts 1 exampleWav] g by blast
  then show ?thesis
    using d g n by simp
qed

text \<open>
  Claim C4. \<open>playMorse\<close> and \<open>generateAudioFile\<close> both fail with an InvalidInput error
  (\<^verbatim>\<open>'No timings provided'\<close>) on an empty event sequence, and with an InvalidInput error
  (\<^verbatim>\<open>'Speed must be between 0.5 and 2.0'\<close>) on a non-empty sequence when the speed is
  below 0.5 or above 2.0; for every speed in \<open>[0.5, 2.0]\<close> neither fails with an
  InvalidInput error.
\<close>

theorem validation_errors:
  "(timings = [] \<longrightarrow>
      fst (playMorse now audioOk timings speed s) = Inl ErrNoTimings \<and>
      snd (playMorse now audioOk timings speed s) = s \<and>
      generateAudioFile tone writeFailure timings speed = Inl ErrNoTimings) \<and>
   kind ErrNoTimings = InvalidInput \<and>
   (timings \<noteq> [] \<and> (speed < 1 / 2 \<or> 2 < speed) \<longrightarrow>
      fst (playMorse now audioOk timings speed s) = Inl ErrSpeedRange \<and>
      snd (playMorse now audioOk timings speed s) = s \<and>
      generateAudioFile tone writeFailure timings speed = Inl ErrSpeedRange) \<and>
   kind ErrSpeedRange = InvalidInput \<and>
   (timings \<noteq> [] \<and> 1 / 2 \<le> speed \<and> speed \<le> 2 \<longrightarrow>
      (\<forall>e. fst (playMorse now audioOk timings speed s) = Inl e \<longrightarrow> kind e \<noteq> InvalidInput) \<and>
      (\<forall>e. generateAudioFile tone writeFailure timings speed = Inl e \<longrightarrow>
         kind e \<noteq> InvalidInput))"
proof (intro conjI impI allI)
  assume "timings = []"
  then show "fst (playMorse now audioOk timings speed s) = Inl ErrNoTimings"
    "snd (playMorse now audioOk timings speed s) = s"
    "generateAudioFile tone writeFailure timings speed = Inl ErrNoTimings"
    by (simp_all add: playMorse_def generateAudioFile_def)
next
  assume "timings \<noteq> [] \<and> (speed < 1 / 2 \<or> 2 < speed)"
  then show "fst (playMorse now audioOk timings speed s) = Inl ErrSpeedRange"
    "snd (playMorse now audioOk timings speed s) = s"
    "generateAudioFile tone writeFailure timings speed = Inl ErrSpeedRange"
    by (auto simp: playMorse_def generateAudioFile_def)
next
  show "kind ErrNoTimings = InvalidInput" "kind ErrSpeedRange = InvalidInput" by simp_all
next
  fix e
  assume v: "timings \<noteq> [] \<and> 1 / 2 \<le> speed \<and> speed \<le> 2"
    and e: "fst (playMorse now audioOk timings speed s) = Inl e"
  from v e have "e = ErrAudioPlayback"
    by (auto simp: playMorse_def Let_def split: if_splits)
  then show "kind e \<noteq> InvalidInput" by simp
next
  fix e
  assume v: "timings \<noteq> [] \<and> 1 / 2 \<le> speed \<and> speed \<le> 2"
    and e: "generateAudioFile tone writeFailure timings speed = Inl e"
  from v e have "e = ErrGeneration \<or> e = ErrStorage"
    by (auto simp: generateAudioFile_def Let_def split: if_splits option.splits)
  then show "kind e \<noteq> InvalidInput" by auto
qed

theorem validation_errors_witness:
  "fst (playMorse 0 True [] 1 initialAudioService) = Inl ErrNoTimings \<and>
   generateAudioFile (\<lambda>i. 0) None [] 1 = Inl ErrNoTimings \<and>
   fst (playMorse 0 True [\<lparr>type = Dit, duration = 100\<rparr>] (3 / 10) initialAudioService) =
     Inl ErrSpeedRange \<and>
   generateAudioFile (\<lambda>i. 0) None [\<lparr>type = Dit, duration = 100\<rparr>] (3 / 10) = Inl ErrSpeedRange \<and>
   fst (playMorse 0 True [\<lparr>type = Dit, duration = 100\<rparr>] (5 / 2) initialAudioService) =
     Inl ErrSpeedRange \<and>
   generateAudioFile (\<lambda>i. 0) None [\<lparr>type = Dit, duration = 100\<rparr>] (5 / 2) = Inl ErrSpeedRange \<and>
   kind ErrSpeedRange = InvalidInput \<and>
   fst (playMorse 0 True [\<lparr>type = Dit, duration = 100\<rparr>] (1 / 2) initialAudioService) \<noteq>
     Inl ErrSpeedRange \<and>
   generateAudioFile (\<lambda>i. 0) None [\<lparr>type = Dit, duration = 100\<rparr>] (1 / 2) \<noteq> Inl ErrSpeedRange \<and>
   fst (playMorse 0 True [\<lparr>type = Dit, duration = 100\<rparr>] 2 initialAudioService) \<noteq>
     Inl ErrSpeedRange \<and>
   generateAudioFile (\<lambda>i. 0) None [\<lparr>type = Dit, duration = 100\<rparr>] 2 \<noteq> Inl ErrSpeedRange"
proof -
  let ?ts = "[\<lparr>type = Dit, duration = 100\<rparr>]"
  let ?s = initialAudioService
  have k: "kind ErrSpeedRange = InvalidInput" by simp
  have a: "fst (playMorse 0 True [] 1 ?s) = Inl ErrNoTimings \<and>
           generateAudioFile (\<lambda>i. 0) None [] 1 = Inl ErrNoTimings"
    using validation_errors [of "[]" 0 True 1 ?s "\<lambda>i. 0" None] by blast
  have b: "fst (playMorse 0 True ?ts (3 / 10) ?s) = Inl ErrSpeedRange \<and>
           generateAudioFile (\<lambda>i. 0) None ?ts (3 / 10) = Inl ErrSpeedRange"
    using validation_errors [of ?ts 0 True "3 / 10" ?s "\<lambda>i. 0" None] by simp
  have c: "fst (playMorse 0 True ?ts (5 / 2) ?s) = Inl ErrSpeedRange \<and>
           generateAudioFile (\<lambda>i. 0) None ?ts (5 / 2) = Inl ErrSpeedRange"
    using validation_errors [of ?ts 0 True "5 / 2" ?s "\<lambda>i. 0" None] by simp
  have d: "fst (playMorse 0 True ?ts (1 / 2) ?s) \<noteq> Inl ErrSpeedRange \<and>
           generateAudioFile (\<lambda>i. 0) None ?ts (1 / 2) \<noteq> Inl ErrSpeedRange"
    using validation_errors [of ?ts 0 True "1 / 2" ?s "\<lambda>i. 0" None] k by auto
  have e: "fst (playMorse 0 True ?ts 2 ?s) \<noteq> Inl ErrSpeedRange \<and>
           generateAudioFile (\<lambda>i. 0) None ?ts 2 \<noteq> Inl ErrSpeedRange"
    using validation_errors [of ?ts 0 True 2 ?s "\<lambda>i. 0" None] k by auto
  show ?thesis using a b c d e k by blast
qed

section \<open>Properties of the flashlight transmission\<close>

lemma transmitMorse_rejects:
  "isTransmitting s \<Longrightarrow>
   transmitMorse timings s =
     (Inl ErrTransmissionInProgress,
      s\<lparr>isTransmitting := False, errorCalls := errorCalls s @ [ErrTransmissionInProgress]\<rparr>)"
  by (simp add: transmitMorse_def)

text \<open>
  Claim C5 says that a \<open>transmitMorse\<close> made while a transmission is in progress fails
  with AlreadyTransmitting and leaves the transmission in progress unaffected. The call
  does fail with \<^verbatim>\<open>'Transmission already in progress'\<close> and the scheduled step stays
  pending, but the \<^verbatim>\<open>catch\<close> block also clears \<open>isTransmitting\<close>: the service reports
  that it is not transmitting, the pending step ends the transmission when it fires
  (no further step, \<^verbatim>\<open>onComplete\<close> called after one of three events) where it would
  have gone on to the second event, and a further \<open>transmitMorse\<close> is accepted.
\<close>

theorem transmitMorse_rejection_stops_transmission:
  "isTransmittingNow transmitting \<and>
   torchEnabled transmitting \<and>
   pendingSteps transmitting = [(1, FlashStep 110 (morseToTiming ''.-'' 100) 0)] \<and>
   fst (transmitMorse (morseToTiming ''-'' 100) transmitting) = Inl ErrTransmissionInProgress \<and>
   kind ErrTransmissionInProgress = AlreadyTransmitting \<and>
   rejected = snd (transmitMorse (morseToTiming ''-'' 100) transmitting) \<and>
   \<not> isTransmittingNow rejected \<and>
   pendingSteps rejected = pendingSteps transmitting \<and>
   pendingSteps (fireStep 1 transmitting) = [(2, FlashStep 110 (morseToTiming ''.-'' 100) 1)] \<and>
   isTransmittingNow (fireStep 1 transmitting) \<and>
   pendingSteps (fireStep 1 rejected) = [] \<and>
   completeCalls (fireStep 1 rejected) = 1 \<and>
   fst (transmitMorse (morseToTiming ''-'' 100) rejected) = Inr ()"
  by (simp add: transmitting_def rejected_def transmitMorse_def executeTimingSequence_def
      scheduleNext_def fireStep_def turnOnFlashlight_def turnOffFlashlight_def
      isTransmittingNow_def hasPermission_def initialFlashlightService_def Let_def
      timing_dot_dash timing_dash fadd_def roundDouble_numeral)

end
